theory Spec2Isabelle
  imports Complex_Main "HOL-Library.Char_ord" "HOL-Library.Multiset" "HOL-Library.Product_Lexorder"
begin

section \<open>The PDF match-report reader (PdfReader.js): a shallow embedding\<close>

text \<open>
  JavaScript strings are modelled as \<^typ>\<open>string\<close>, one \<^typ>\<open>char\<close> per UTF-16 code unit
  below 256 (the Latin-1 range, which holds every character range the source's regular
  expressions name). JavaScript numbers are modelled as \<^typ>\<open>int\<close> or \<^typ>\<open>nat\<close> where the source
  only counts, and as IEEE 754 doubles, with their rounding, for page coordinates.
\<close>

subsection \<open>Numbers to text\<close>

definition digit_char :: "nat \<Rightarrow> char" where
  "digit_char d = ''0123456789'' ! d"

text \<open>\<^verbatim>\<open>String(n)\<close> and \<^verbatim>\<open>`${n}`\<close> for a non-negative integer: its decimal digits.\<close>

fun String_nat :: "nat \<Rightarrow> string" where
  "String_nat n =
     (if n < 10 then [digit_char n] else String_nat (n div 10) @ [digit_char (n mod 10)])"

declare String_nat.simps [simp del]

subsection \<open>Column labels\<close>

definition DEFAULT_SET_COLUMNS :: int where
  "DEFAULT_SET_COLUMNS = 4"

definition MAX_SET_COLUMNS :: int where
  "MAX_SET_COLUMNS = 5"

text \<open>
  \<^verbatim>\<open>buildTableColumnLabels(setCount = DEFAULT_SET_COLUMNS)\<close>. The argument is
  \<open>None\<close> when it is absent (\<^verbatim>\<open>undefined\<close> takes the default parameter, \<^verbatim>\<open>null\<close> is
  falsy in \<^verbatim>\<open>setCount || DEFAULT_SET_COLUMNS\<close>), and an integer otherwise; \<open>0\<close> is
  falsy as well.
\<close>

definition buildTableColumnLabels :: "int option \<Rightarrow> string list" where
  "buildTableColumnLabels setCount =
     (let given = (case setCount of None \<Rightarrow> DEFAULT_SET_COLUMNS | Some n \<Rightarrow> n);
          clampedSets = min (max 1 (if given = 0 then DEFAULT_SET_COLUMNS else given)) MAX_SET_COLUMNS;
          setColumns = map (\<lambda>index. String_nat (index + 1)) [0..<nat clampedSets]
      in setColumns @
         [''Vote'',
          ''Points Tot'', ''Brake Points'', ''Points Won - Lost'',
          ''Serves Tot'', ''Serves Err'', ''Serves Pts'',
          ''Receptions Tot'', ''Receptions Err'', ''Receptions Pos%'', ''Receptions Exc%'',
          ''Attacks Tot'', ''Attacks Err'', ''Attacks Blocked'', ''Attacks Pts'', ''Attacks Pts%'',
          ''BK Pts''])"

text \<open>The number of set columns the claim names: the request clamped to 1..5, 4 by default.\<close>

definition clampedSetCount :: "int option \<Rightarrow> nat" where
  "clampedSetCount setCount =
     (case setCount of
        None \<Rightarrow> 4
      | Some n \<Rightarrow> if n = 0 then 4 else if n < 1 then 1 else if 5 < n then 5 else nat n)"

subsection \<open>Strings\<close>

text \<open>
  White space as \<^verbatim>\<open>String.prototype.trim\<close> and the regular-expression class \<^verbatim>\<open>\s\<close> see it,
  among the code units below 256: tab, line feed, vertical tab, form feed, carriage
  return, space and the no-break space.
\<close>

definition isSpace :: "char \<Rightarrow> bool" where
  "isSpace c \<longleftrightarrow> c \<in> {CHR 0x09, CHR 0x0A, CHR 0x0B, CHR 0x0C, CHR 0x0D, CHR '' '', CHR 0xA0}"

definition trimStart :: "string \<Rightarrow> string" where
  "trimStart s = dropWhile isSpace s"

definition trimEnd :: "string \<Rightarrow> string" where
  "trimEnd s = rev (dropWhile isSpace (rev s))"

definition trim :: "string \<Rightarrow> string" where
  "trim s = trimEnd (trimStart s)"

text \<open>\<^verbatim>\<open>parts.join(sep)\<close>.\<close>

fun join :: "string \<Rightarrow> string list \<Rightarrow> string" where
  "join sep [] = []"
| "join sep [p] = p"
| "join sep (p # q # ps) = p @ sep @ join sep (q # ps)"

text \<open>
  \<^verbatim>\<open>toLowerCase\<close> on the code units below 256: the letters A to Z and the accented capitals
  from 0xC0 to 0xDE (but the multiplication sign 0xD7) have a lower-case form, 32 above.
\<close>

definition upperChars :: string where
  "upperChars = ''ABCDEFGHIJKLMNOPQRSTUVWXYZ'' @
     [CHR 0xC0, CHR 0xC1, CHR 0xC2, CHR 0xC3, CHR 0xC4, CHR 0xC5, CHR 0xC6, CHR 0xC7,
      CHR 0xC8, CHR 0xC9, CHR 0xCA, CHR 0xCB, CHR 0xCC, CHR 0xCD, CHR 0xCE, CHR 0xCF,
      CHR 0xD0, CHR 0xD1, CHR 0xD2, CHR 0xD3, CHR 0xD4, CHR 0xD5, CHR 0xD6,
      CHR 0xD8, CHR 0xD9, CHR 0xDA, CHR 0xDB, CHR 0xDC, CHR 0xDD, CHR 0xDE]"

definition lowerChars :: string where
  "lowerChars = ''abcdefghijklmnopqrstuvwxyz'' @
     [CHR 0xE0, CHR 0xE1, CHR 0xE2, CHR 0xE3, CHR 0xE4, CHR 0xE5, CHR 0xE6, CHR 0xE7,
      CHR 0xE8, CHR 0xE9, CHR 0xEA, CHR 0xEB, CHR 0xEC, CHR 0xED, CHR 0xEE, CHR 0xEF,
      CHR 0xF0, CHR 0xF1, CHR 0xF2, CHR 0xF3, CHR 0xF4, CHR 0xF5, CHR 0xF6,
      CHR 0xF8, CHR 0xF9, CHR 0xFA, CHR 0xFB, CHR 0xFC, CHR 0xFD, CHR 0xFE]"

definition toLowerChar :: "char \<Rightarrow> char" where
  "toLowerChar c = (case map_of (zip upperChars lowerChars) c of Some l \<Rightarrow> l | None \<Rightarrow> c)"

definition toLowerCase :: "string \<Rightarrow> string" where
  "toLowerCase s = map toLowerChar s"

text \<open>Character classes of the source's regular expressions.\<close>

definition isDigit :: "char \<Rightarrow> bool" where
  "isDigit c \<longleftrightarrow> c \<in> set ''0123456789''"

definition isAsciiLetter :: "char \<Rightarrow> bool" where
  "isAsciiLetter c \<longleftrightarrow> (CHR ''A'' \<le> c \<and> c \<le> CHR ''Z'') \<or> (CHR ''a'' \<le> c \<and> c \<le> CHR ''z'')"

text \<open>\<^verbatim>\<open>\w\<close>, for the word boundary \<^verbatim>\<open>\b\<close>.\<close>

definition isWordChar :: "char \<Rightarrow> bool" where
  "isWordChar c \<longleftrightarrow> isAsciiLetter c \<or> isDigit c \<or> c = CHR ''_''"

text \<open>\<^verbatim>\<open>s.startsWith(p)\<close>, \<^verbatim>\<open>s.endsWith(p)\<close> and \<^verbatim>\<open>s.includes(p)\<close>.\<close>

fun startsWith :: "string \<Rightarrow> string \<Rightarrow> bool" where
  "startsWith s [] = True"
| "startsWith [] (p # ps) = False"
| "startsWith (c # s) (p # ps) = (c = p \<and> startsWith s ps)"

definition endsWith :: "string \<Rightarrow> string \<Rightarrow> bool" where
  "endsWith s p = startsWith (rev s) (rev p)"

fun includes_str :: "string \<Rightarrow> string \<Rightarrow> bool" where
  "includes_str [] p = (p = [])"
| "includes_str (c # s) p = (startsWith (c # s) p \<or> includes_str s p)"

text \<open>
  \<^verbatim>\<open>s.split(sep)\<close> for a separator that is one character of a class: the pieces between
  the separators, empty ones included. \<open>cur\<close> is the piece being read.
\<close>

fun splitAt :: "(char \<Rightarrow> bool) \<Rightarrow> string \<Rightarrow> string \<Rightarrow> string list" where
  "splitAt sep cur [] = [cur]"
| "splitAt sep cur (c # s) =
     (if sep c then cur # splitAt sep [] s else splitAt sep (cur @ [c]) s)"

definition splitOn :: "(char \<Rightarrow> bool) \<Rightarrow> string \<Rightarrow> string list" where
  "splitOn sep s = splitAt sep [] s"

text \<open>
  \<^verbatim>\<open>s.split(/\s+/).filter(Boolean)\<close>: the maximal runs of characters that are no white
  space.
\<close>

fun wordsAt :: "string \<Rightarrow> string \<Rightarrow> string list" where
  "wordsAt cur [] = (if cur = [] then [] else [cur])"
| "wordsAt cur (c # s) =
     (if isSpace c then (if cur = [] then [] else [cur]) @ wordsAt [] s
      else wordsAt (cur @ [c]) s)"

definition splitWords :: "string \<Rightarrow> string list" where
  "splitWords s = wordsAt [] s"

text \<open>
  \<^verbatim>\<open>s.replace(/\s{2,}/g, " ")\<close>: every maximal run of two or more white-space characters
  becomes one space; a single white-space character stays. \<open>run\<close> is the run being read.
\<close>

definition flushRun :: "string \<Rightarrow> string" where
  "flushRun run = (if length run \<ge> 2 then '' '' else run)"

fun collapseAt :: "string \<Rightarrow> string \<Rightarrow> string" where
  "collapseAt run [] = flushRun run"
| "collapseAt run (c # s) =
     (if isSpace c then collapseAt (run @ [c]) s
      else flushRun run @ c # collapseAt [] s)"

definition collapseSpaces :: "string \<Rightarrow> string" where
  "collapseSpaces s = collapseAt [] s"

text \<open>\<^verbatim>\<open>s.replace(/\d+/g, " ")\<close>: every maximal run of digits becomes one space.\<close>

fun digitRunsAt :: "bool \<Rightarrow> string \<Rightarrow> string" where
  "digitRunsAt inRun [] = []"
| "digitRunsAt inRun (c # s) =
     (if isDigit c then (if inRun then digitRunsAt True s else CHR '' '' # digitRunsAt True s)
      else c # digitRunsAt False s)"

definition digitRunsToSpace :: "string \<Rightarrow> string" where
  "digitRunsToSpace s = digitRunsAt False s"

text \<open>
  \<^verbatim>\<open>Number(s)\<close>, for the strings that reach it here: a non-empty string of decimal digits
  has its value, and a string with any other character (the callers can pass a comma)
  is \<^verbatim>\<open>NaN\<close>, here \<open>None\<close>.
\<close>

definition digitValue :: "char \<Rightarrow> nat" where
  "digitValue c = of_char c - 48"

definition digitsValue :: "string \<Rightarrow> nat" where
  "digitsValue s = foldl (\<lambda>n c. 10 * n + digitValue c) 0 s"

definition Number :: "string \<Rightarrow> nat option" where
  "Number s = (if s \<noteq> [] \<and> list_all isDigit s then Some (digitsValue s) else None)"

text \<open>\<^verbatim>\<open>pad\<close>: \<^verbatim>\<open>String(value).padStart(2, '0')\<close>.\<close>

definition pad :: "nat \<Rightarrow> string" where
  "pad v = (if length (String_nat v) < 2 then CHR ''0'' # String_nat v else String_nat v)"

text \<open>A string or \<^verbatim>\<open>null\<close> is falsy when it is \<^verbatim>\<open>null\<close> or the empty string.\<close>

definition falsy :: "string option \<Rightarrow> bool" where
  "falsy v \<longleftrightarrow> v = None \<or> v = Some []"

subsection \<open>Numbers\<close>

text \<open>
  A JavaScript number is an IEEE 754 double: a finite double, given here by its exact
  value, one of the two infinities, or NaN. The sign of a zero is not kept: it shows
  only in a division by zero, and every divisor of the source is a positive integer.
\<close>

datatype number = Fin real | Infinity | NegInfinity | NaN

text \<open>
  Rounding to a double. \<open>exponentOf x\<close> is the exponent of a positive \<open>x\<close>: the \<open>e\<close> with
  \<open>2 ^ e \<le> x < 2 ^ (e + 1)\<close>. The doubles from \<open>2 ^ e\<close> to \<open>2 ^ (e + 1)\<close> are the multiples of
  \<open>2 ^ (e - 52)\<close> (53 significant bits), and those below \<open>2 ^ (- 1022)\<close> the multiples of
  \<open>2 ^ (- 1074)\<close> (the subnormal doubles). \<open>x\<close> goes to the nearest multiple, to the even
  one when two are equally near, and to an infinity when that is \<open>2 ^ 1024\<close> or more.
\<close>

definition pow2 :: "int \<Rightarrow> real" where
  "pow2 e = (if 0 \<le> e then 2 ^ nat e else 1 / 2 ^ nat (- e))"

fun bitLength :: "nat \<Rightarrow> nat" where
  "bitLength n = (if n = 0 then 0 else Suc (bitLength (n div 2)))"

definition exponentOf :: "real \<Rightarrow> int" where
  "exponentOf x =
     (if 1 \<le> x then int (bitLength (nat \<lfloor>x\<rfloor>)) - 1
      else - int (bitLength (nat (\<lceil>1 / x\<rceil> - 1))))"

definition roundHalfEven :: "real \<Rightarrow> int" where
  "roundHalfEven x =
     (let n = \<lfloor>x\<rfloor>; d = x - of_int n in
      if d < 1 / 2 then n else if 1 / 2 < d then n + 1 else if even n then n else n + 1)"

definition roundMagnitude :: "real \<Rightarrow> real" where
  "roundMagnitude x =
     (let e = max (exponentOf x) (- 1022); ulp = pow2 (e - 52)
      in of_int (roundHalfEven (x / ulp)) * ulp)"

definition toDouble :: "real \<Rightarrow> number" where
  "toDouble x =
     (if x = 0 then Fin 0
      else let m = roundMagnitude \<bar>x\<bar> in
        if 1024 \<le> exponentOf m then (if 0 < x then Infinity else NegInfinity)
        else Fin (if 0 < x then m else - m))"

text \<open>
  The arithmetic of doubles: the exact result, rounded. The comparisons \<^verbatim>\<open><\<close> and \<^verbatim>\<open><=\<close>
  are false whenever an operand is NaN.
\<close>

instantiation number :: "{plus, minus, uminus, times, inverse, abs, ord}"
begin

fun uminus_number :: "number \<Rightarrow> number" where
  "- Fin a = Fin (- a)"
| "- Infinity = NegInfinity"
| "- NegInfinity = Infinity"
| "- NaN = NaN"

fun plus_number :: "number \<Rightarrow> number \<Rightarrow> number" where
  "Fin a + Fin b = toDouble (a + b)"
| "NaN + y = NaN"
| "x + NaN = NaN"
| "Infinity + NegInfinity = NaN"
| "NegInfinity + Infinity = NaN"
| "Infinity + y = Infinity"
| "x + Infinity = Infinity"
| "NegInfinity + y = NegInfinity"
| "x + NegInfinity = NegInfinity"

definition minus_number :: "number \<Rightarrow> number \<Rightarrow> number" where
  "x - y = x + (- y)" for x y :: number

fun times_number :: "number \<Rightarrow> number \<Rightarrow> number" where
  "Fin a * Fin b = toDouble (a * b)"
| "NaN * y = NaN"
| "x * NaN = NaN"
| "Fin a * Infinity = (if a = 0 then NaN else if 0 < a then Infinity else NegInfinity)"
| "Fin a * NegInfinity = (if a = 0 then NaN else if 0 < a then NegInfinity else Infinity)"
| "Infinity * Fin b = (if b = 0 then NaN else if 0 < b then Infinity else NegInfinity)"
| "NegInfinity * Fin b = (if b = 0 then NaN else if 0 < b then NegInfinity else Infinity)"
| "Infinity * Infinity = Infinity"
| "Infinity * NegInfinity = NegInfinity"
| "NegInfinity * Infinity = NegInfinity"
| "NegInfinity * NegInfinity = Infinity"

fun divide_number :: "number \<Rightarrow> number \<Rightarrow> number" where
  "divide_number (Fin a) (Fin b) =
     (if b \<noteq> 0 then toDouble (a / b)
      else if a = 0 then NaN else if 0 < a then Infinity else NegInfinity)"
| "divide_number NaN y = NaN"
| "divide_number x NaN = NaN"
| "divide_number (Fin a) y = Fin 0"
| "divide_number Infinity (Fin b) = (if 0 \<le> b then Infinity else NegInfinity)"
| "divide_number NegInfinity (Fin b) = (if 0 \<le> b then NegInfinity else Infinity)"
| "divide_number Infinity Infinity = NaN"
| "divide_number Infinity NegInfinity = NaN"
| "divide_number NegInfinity Infinity = NaN"
| "divide_number NegInfinity NegInfinity = NaN"

definition inverse_number :: "number \<Rightarrow> number" where
  "inverse_number x = divide (Fin 1) x"

fun abs_number :: "number \<Rightarrow> number" where
  "\<bar>Fin a\<bar> = Fin \<bar>a\<bar>"
| "\<bar>Infinity\<bar> = Infinity"
| "\<bar>NegInfinity\<bar> = Infinity"
| "\<bar>NaN\<bar> = NaN"

fun less_number :: "number \<Rightarrow> number \<Rightarrow> bool" where
  "Fin a < Fin b \<longleftrightarrow> a < b"
| "NaN < y \<longleftrightarrow> False"
| "x < NaN \<longleftrightarrow> False"
| "x < NegInfinity \<longleftrightarrow> False"
| "Infinity < y \<longleftrightarrow> False"
| "x < Infinity \<longleftrightarrow> True"
| "NegInfinity < y \<longleftrightarrow> True"

fun less_eq_number :: "number \<Rightarrow> number \<Rightarrow> bool" where
  "Fin a \<le> Fin b \<longleftrightarrow> a \<le> b"
| "NaN \<le> y \<longleftrightarrow> False"
| "x \<le> NaN \<longleftrightarrow> False"
| "NegInfinity \<le> y \<longleftrightarrow> True"
| "x \<le> Infinity \<longleftrightarrow> True"
| "x \<le> NegInfinity \<longleftrightarrow> False"
| "Infinity \<le> y \<longleftrightarrow> False"

instance ..

end

text \<open>A number is truthy unless it is 0 or NaN.\<close>

definition truthy :: "number \<Rightarrow> bool" where
  "truthy v \<longleftrightarrow> v \<noteq> Fin 0 \<and> v \<noteq> NaN"

text \<open>A natural number as a double: the lengths that the source turns into numbers are exact.\<close>

definition numberOfNat :: "nat \<Rightarrow> number" where
  "numberOfNat n = toDouble (real n)"

subsection \<open>Mapping stat tokens to columns\<close>

text \<open>A stat token of a player line, \<^verbatim>\<open>{ text, x, width, height }\<close>.\<close>

record StatToken =
  t_text :: string
  t_x :: number
  t_width :: number
  t_height :: number

text \<open>A column anchor, \<^verbatim>\<open>{ start, end, center, height }\<close>.\<close>

record ColumnAnchor =
  a_start :: number
  a_end :: number
  a_center :: number
  a_height :: number

definition COLUMN_TOLERANCE :: number where
  "COLUMN_TOLERANCE = Fin 14"

definition HEIGHT_TOLERANCE :: number where
  "HEIGHT_TOLERANCE = Fin 5"

definition EMPTY_VALUE_PLACEHOLDER :: string where
  "EMPTY_VALUE_PLACEHOLDER = ''.''"

text \<open>\<^verbatim>\<open>normalizeTokenText\<close>: \<^verbatim>\<open>value.replace(/[()]/g, "").trim()\<close>.\<close>

definition normalizeTokenText :: "string \<Rightarrow> string" where
  "normalizeTokenText v = trim (filter (\<lambda>c. c \<noteq> CHR ''('' \<and> c \<noteq> CHR '')'') v)"

text \<open>
  The labels \<open>mapTokensToColumns\<close> works with: the caller's, or the default labels when the
  caller's list is empty (a value that is no array behaves like the empty list).
\<close>

definition effectiveLabels :: "string list \<Rightarrow> string list" where
  "effectiveLabels columnLabels =
     (if columnLabels \<noteq> [] then columnLabels else buildTableColumnLabels None)"

text \<open>
  The positional branch: \<^verbatim>\<open>labels.map((_, index) => ...)\<close>. \<^verbatim>\<open>safeTokens[index]\<close> is
  \<^verbatim>\<open>undefined\<close> beyond the tokens, and \<^verbatim>\<open>normalizeTokenText(undefined)\<close> is the empty string.
\<close>

definition positionalCell :: "StatToken list \<Rightarrow> nat \<Rightarrow> string" where
  "positionalCell safeTokens index =
     (let v = (if index < length safeTokens
               then normalizeTokenText (t_text (safeTokens ! index)) else [])
      in if v \<noteq> [] then v else EMPTY_VALUE_PLACEHOLDER)"

definition positionalColumns :: "StatToken list \<Rightarrow> string list \<Rightarrow> string list" where
  "positionalColumns safeTokens labels = map (positionalCell safeTokens) [0..<length labels]"

text \<open>The three-way test \<^verbatim>\<open>overlapsHorizontally\<close> of the anchored branch.\<close>

definition overlapsHorizontally :: "ColumnAnchor \<Rightarrow> StatToken \<Rightarrow> bool" where
  "overlapsHorizontally anchor token =
     (let start = t_x token; stop = start + t_width token in
        (start \<ge> a_start anchor - COLUMN_TOLERANCE \<and> start \<le> a_end anchor + COLUMN_TOLERANCE) \<or>
        (stop \<ge> a_start anchor - COLUMN_TOLERANCE \<and> stop \<le> a_end anchor + COLUMN_TOLERANCE) \<or>
        (start \<le> a_start anchor \<and> stop \<ge> a_end anchor))"

text \<open>
  The score of a token against an anchor, in the arithmetic of doubles.
  \<^verbatim>\<open>anchor.height ? ... : 0\<close>: an anchor whose height is 0 (or NaN) takes no height
  difference.
\<close>

definition anchorScore :: "ColumnAnchor \<Rightarrow> StatToken \<Rightarrow> number" where
  "anchorScore anchor token =
     (let center = t_x token + t_width token / Fin 2;
          heightDiff = (if truthy (a_height anchor)
                        then \<bar>a_height anchor - t_height token\<bar> else Fin 0);
          heightPenalty = (if heightDiff > HEIGHT_TOLERANCE then heightDiff else Fin 0)
      in \<bar>a_center anchor - center\<bar> + heightPenalty
           + (if overlapsHorizontally anchor token then Fin 0 else Fin 25))"

text \<open>
  The inner \<^verbatim>\<open>columnAnchors.forEach\<close>, on the state \<open>(bestIndex, bestScore)\<close>: \<open>bestIndex\<close> is
  \<open>None\<close> for \<^verbatim>\<open>-1\<close>. A score that is not below \<open>bestScore\<close> (as \<^verbatim>\<open>Infinity\<close> and NaN never
  are) leaves the state as it is.
\<close>

definition considerAnchor ::
  "ColumnAnchor list \<Rightarrow> bool list \<Rightarrow> StatToken \<Rightarrow> nat \<Rightarrow> nat option \<times> number
     \<Rightarrow> nat option \<times> number" where
  "considerAnchor columnAnchors occupied token index best =
     (if occupied ! index then best
      else let score = anchorScore (columnAnchors ! index) token in
        if score < snd best then (Some index, score) else best)"

definition bestAnchor :: "ColumnAnchor list \<Rightarrow> bool list \<Rightarrow> StatToken \<Rightarrow> nat option" where
  "bestAnchor columnAnchors occupied token =
     fst (fold (considerAnchor columnAnchors occupied token) [0..<length columnAnchors]
            (None, Infinity))"

text \<open>One round of the outer \<^verbatim>\<open>safeTokens.forEach\<close>, on the state \<open>(result, occupied)\<close>.\<close>

definition placeToken ::
  "ColumnAnchor list \<Rightarrow> StatToken \<Rightarrow> string list \<times> bool list \<Rightarrow> string list \<times> bool list" where
  "placeToken columnAnchors token st =
     (let v = normalizeTokenText (t_text token) in
      if v = [] then st
      else (case bestAnchor columnAnchors (snd st) token of
              None \<Rightarrow> st
            | Some bestIndex \<Rightarrow> ((fst st)[bestIndex := v], (snd st)[bestIndex := True])))"

text \<open>\<open>mapTokensToColumns\<close>; \<open>columnAnchors\<close> is \<open>None\<close> for \<^verbatim>\<open>null\<close>.\<close>

definition mapTokensToColumns ::
  "StatToken list \<Rightarrow> ColumnAnchor list option \<Rightarrow> string list \<Rightarrow> string list" where
  "mapTokensToColumns tokens columnAnchors columnLabels =
     (let labels = effectiveLabels columnLabels in
      case columnAnchors of
        None \<Rightarrow> positionalColumns tokens labels
      | Some anchors \<Rightarrow>
          if length anchors \<noteq> length labels then positionalColumns tokens labels
          else fst (fold (placeToken anchors) tokens
                      (replicate (length labels) EMPTY_VALUE_PLACEHOLDER,
                       replicate (length anchors) False)))"

text \<open>
  The score as the specification words it: the height penalty is the absolute height
  difference whenever it exceeds the tolerance, whatever the anchor's height.
\<close>

definition specScore :: "ColumnAnchor \<Rightarrow> StatToken \<Rightarrow> number" where
  "specScore anchor token =
     (let center = t_x token + t_width token / Fin 2;
          heightDiff = \<bar>a_height anchor - t_height token\<bar>;
          heightPenalty = (if heightDiff > HEIGHT_TOLERANCE then heightDiff else Fin 0)
      in \<bar>a_center anchor - center\<bar> + heightPenalty
           + (if overlapsHorizontally anchor token then Fin 0 else Fin 25))"

subsection \<open>Grouping players by team\<close>

text \<open>
  A player row as \<open>groupPlayersByTeam\<close> reads it: \<open>p_team\<close> is \<open>None\<close> when the field is
  missing.
\<close>

record Player =
  p_team :: "string option"
  p_number :: int
  p_name :: string

record TeamGroup =
  g_team :: string
  g_players :: "Player list"

datatype error = TypeError

text \<open>\<^verbatim>\<open>player.team || "Equipe"\<close>: a missing and an empty team name are falsy.\<close>

definition teamNameOf :: "Player \<Rightarrow> string" where
  "teamNameOf player =
     (case p_team player of None \<Rightarrow> ''Equipe'' | Some t \<Rightarrow> if t = [] then ''Equipe'' else t)"

text \<open>
  The accumulator of the \<^verbatim>\<open>reduce\<close> is the plain object \<^verbatim>\<open>{}\<close>: its own properties, in
  creation order, are the association list; behind them stands \<^verbatim>\<open>Object.prototype\<close>, whose
  properties a lookup \<^verbatim>\<open>acc[teamName]\<close> finds when \<open>acc\<close> has no own property of that name.
\<close>

definition objectPrototypeKeys :: "string list" where
  "objectPrototypeKeys =
     [''constructor'', ''hasOwnProperty'', ''isPrototypeOf'', ''propertyIsEnumerable'',
      ''toLocaleString'', ''toString'', ''valueOf'', ''__proto__'',
      ''__defineGetter__'', ''__defineSetter__'', ''__lookupGetter__'', ''__lookupSetter__'']"

text \<open>
  One round of the \<^verbatim>\<open>reduce\<close>. An own property holds an array (truthy), and the player is
  pushed onto it. An inherited property is a function (or, for \<^verbatim>\<open>__proto__\<close>, an object):
  truthy, so no array is created, and it has no \<^verbatim>\<open>push\<close>: the call raises a TypeError.
\<close>

definition addPlayer ::
  "Player \<Rightarrow> (string \<times> Player list) list \<Rightarrow> error + (string \<times> Player list) list" where
  "addPlayer player acc =
     (let teamName = teamNameOf player in
      case map_of acc teamName of
        Some teamPlayers \<Rightarrow>
          Inr (map (\<lambda>(k, ps). if k = teamName then (k, ps @ [player]) else (k, ps)) acc)
      | None \<Rightarrow>
          if teamName \<in> set objectPrototypeKeys then Inl TypeError
          else Inr (acc @ [(teamName, [player])]))"

fun reducePlayers ::
  "Player list \<Rightarrow> (string \<times> Player list) list \<Rightarrow> error + (string \<times> Player list) list" where
  "reducePlayers [] acc = Inr acc"
| "reducePlayers (player # players) acc =
     (case addPlayer player acc of
        Inl e \<Rightarrow> Inl e
      | Inr acc' \<Rightarrow> reducePlayers players acc')"

text \<open>
  \<^verbatim>\<open>Object.entries\<close> lists the array-index keys first (canonical decimal strings below
  \<open>2\<^sup>3\<^sup>2 - 1\<close>), in ascending numeric order, then the other keys in creation order.
\<close>

definition isArrayIndex :: "string \<Rightarrow> bool" where
  "isArrayIndex k \<longleftrightarrow>
     k \<noteq> [] \<and> list_all isDigit k \<and> (hd k \<noteq> CHR ''0'' \<or> k = ''0'') \<and>
     digitsValue k < 4294967295"

definition objectEntries :: "(string \<times> 'v) list \<Rightarrow> (string \<times> 'v) list" where
  "objectEntries obj =
     sort_key (\<lambda>(k, v). digitsValue k) (filter (\<lambda>(k, v). isArrayIndex k) obj)
     @ filter (\<lambda>(k, v). \<not> isArrayIndex k) obj"

text \<open>
  \<open>groupPlayersByTeam\<close>. \<^verbatim>\<open>[...teamPlayers].sort((a, b) => a.number - b.number)\<close> is a stable
  sort by number.
\<close>

definition groupPlayersByTeam :: "Player list \<Rightarrow> error + TeamGroup list" where
  "groupPlayersByTeam players =
     (if players = [] then Inr []
      else case reducePlayers players [] of
        Inl e \<Rightarrow> Inl e
      | Inr teams \<Rightarrow>
          Inr (map (\<lambda>(team, teamPlayers).
                 \<lparr>g_team = team, g_players = sort_key p_number teamPlayers\<rparr>)
               (objectEntries teams)))"

subsection \<open>Line reconstruction\<close>

text \<open>
  A positioned text item of a page, \<^verbatim>\<open>{ str, x, y, width, height, page }\<close>. The caller
  builds the items from the page's text, each coordinate rounded to two decimals: the
  coordinates are finite doubles, given by their exact values.
\<close>

record Item =
  i_str :: string
  i_x :: real
  i_y :: real
  i_width :: real
  i_height :: real
  i_page :: nat

text \<open>A token of a line, \<^verbatim>\<open>{ str, x, width, height }\<close>, and a line, \<^verbatim>\<open>{ y, page, tokens }\<close>.\<close>

record LineToken =
  lt_str :: string
  lt_x :: number
  lt_width :: number
  lt_height :: number

record Line =
  l_y :: number
  l_page :: nat
  l_tokens :: "LineToken list"

text \<open>
  The inner \<^verbatim>\<open>for\<close> loop of \<open>groupLines\<close>: the index of the first bucket within the
  tolerance, \<open>None\<close> for \<^verbatim>\<open>-1\<close>. \<^verbatim>\<open>Math.abs(yBuckets[i] - it.y) <= tolerance\<close> is decided on
  the rounded difference, as the code decides it.
\<close>

fun findBucket :: "real list \<Rightarrow> real \<Rightarrow> real \<Rightarrow> nat option" where
  "findBucket [] y tolerance = None"
| "findBucket (b # yBuckets) y tolerance =
     (if \<bar>Fin b - Fin y\<bar> \<le> Fin tolerance then Some 0
      else map_option Suc (findBucket yBuckets y tolerance))"

text \<open>One round of \<^verbatim>\<open>items.forEach\<close>, on the state \<open>(yBuckets, rows)\<close>.\<close>

definition placeItem ::
  "real \<Rightarrow> Item \<Rightarrow> real list \<times> Item list list \<Rightarrow> real list \<times> Item list list" where
  "placeItem tolerance it st =
     (case findBucket (fst st) (i_y it) tolerance of
        None \<Rightarrow> (fst st @ [i_y it], snd st @ [[it]])
      | Some bucketIndex \<Rightarrow> (fst st, (snd st)[bucketIndex := snd st ! bucketIndex @ [it]]))"

definition clusterRows :: "real \<Rightarrow> Item list \<Rightarrow> Item list list" where
  "clusterRows tolerance items = snd (fold (placeItem tolerance) items ([], []))"

text \<open>
  \<^verbatim>\<open>xs.sort(compare)\<close> is a stable sort. An insertion sort is one: with a comparator that
  orders the elements consistently, every stable sort gives the same list.
\<close>

fun insertBy :: "('a \<Rightarrow> 'a \<Rightarrow> number) \<Rightarrow> 'a \<Rightarrow> 'a list \<Rightarrow> 'a list" where
  "insertBy compare x [] = [x]"
| "insertBy compare x (y # ys) =
     (if compare x y > Fin 0 then y # insertBy compare x ys else x # y # ys)"

definition sortBy :: "('a \<Rightarrow> 'a \<Rightarrow> number) \<Rightarrow> 'a list \<Rightarrow> 'a list" where
  "sortBy compare xs = foldr (insertBy compare) xs []"

text \<open>
  A row becomes a line. \<^verbatim>\<open>row.sort((a, b) => a.x - b.x)\<close>: the difference of two finite
  doubles is negative, zero or positive as their exact difference is, so that this is
  the stable sort by \<open>x\<close>. \<open>y\<close> is the mean, summed from the left, and may be an infinity;
  the page is the first token's. A row is never empty.
\<close>

definition meanY :: "Item list \<Rightarrow> number" where
  "meanY row =
     foldl (\<lambda>sum item. sum + Fin (i_y item)) (Fin 0) row / numberOfNat (length row)"

definition lineOfRow :: "Item list \<Rightarrow> Line" where
  "lineOfRow row =
     (let sorted = sort_key i_x row in
      \<lparr>l_y = meanY sorted,
       l_page = i_page (hd sorted),
       l_tokens = map (\<lambda>token. \<lparr>lt_str = i_str token, lt_x = Fin (i_x token),
                                 lt_width = Fin (i_width token),
                                 lt_height = Fin (i_height token)\<rparr>) sorted\<rparr>)"

text \<open>
  \<open>groupLines\<close>; the last step is \<^verbatim>\<open>sort((a, b) => a.page - b.page || b.y - a.y)\<close>, by page
  and then by descending \<open>y\<close>. No \<open>y\<close> of a line is NaN, so that the comparator is
  consistent.
\<close>

definition compareLines :: "Line \<Rightarrow> Line \<Rightarrow> number" where
  "compareLines a b =
     (let byPage = numberOfNat (l_page a) - numberOfNat (l_page b)
      in if truthy byPage then byPage else l_y b - l_y a)"

definition groupLines :: "Item list \<Rightarrow> real \<Rightarrow> Line list" where
  "groupLines items tolerance =
     sortBy compareLines (map lineOfRow (clusterRows tolerance items))"

text \<open>The partition of the tokens into lines: which tokens share a line, in no order.\<close>

definition lineGroupings :: "Line list \<Rightarrow> LineToken multiset multiset" where
  "lineGroupings lines = mset (map (\<lambda>line. mset (l_tokens line)) lines)"
subsection \<open>Regular expressions\<close>

text \<open>
  The source's regular expressions, as syntax trees, with a backtracking matcher in the
  order of ECMAScript: alternatives left to right, quantifiers greedy. \<open>Chr\<close> is a
  character class, \<open>Cap\<close> the capturing group (each expression here has at most one),
  \<open>Bol\<close>, \<open>Eol\<close> and \<open>WordB\<close> are \<^verbatim>\<open>^\<close>, \<^verbatim>\<open>$\<close> and \<^verbatim>\<open>\b\<close>.
\<close>

datatype rx =
  Chr "char \<Rightarrow> bool"
  | Eps
  | Seq rx rx
  | Alt rx rx
  | Opt rx
  | Star rx
  | Cap rx
  | Bol
  | Eol
  | WordB

text \<open>
  A matcher state is the position in the subject and the capture, if any, as (start,
  end). \<open>rxm r s st\<close> lists the states after \<open>r\<close>, in the order backtracking tries them.
  An iteration of \<open>Star\<close> that consumes nothing is not repeated.
\<close>

type_synonym mstate = "nat \<times> (nat \<times> nat) option"

definition wordBefore :: "string \<Rightarrow> nat \<Rightarrow> bool" where
  "wordBefore s i \<longleftrightarrow> 0 < i \<and> i \<le> length s \<and> isWordChar (s ! (i - 1))"

definition wordAfter :: "string \<Rightarrow> nat \<Rightarrow> bool" where
  "wordAfter s i \<longleftrightarrow> i < length s \<and> isWordChar (s ! i)"

function rxm :: "rx \<Rightarrow> string \<Rightarrow> mstate \<Rightarrow> mstate list" where
  "rxm (Chr p) s st =
     (if fst st < length s \<and> p (s ! fst st) then [(Suc (fst st), snd st)] else [])"
| "rxm Eps s st = [st]"
| "rxm (Seq a b) s st = concat (map (rxm b s) (rxm a s st))"
| "rxm (Alt a b) s st = rxm a s st @ rxm b s st"
| "rxm (Opt a) s st = rxm a s st @ [st]"
| "rxm (Star a) s st =
     concat (map (\<lambda>st'. if fst st < fst st' \<and> fst st' \<le> length s
                          then rxm (Star a) s st' else [])
               (rxm a s st)) @ [st]"
| "rxm (Cap a) s st = map (\<lambda>st'. (fst st', Some (fst st, fst st'))) (rxm a s st)"
| "rxm Bol s st = (if fst st = 0 then [st] else [])"
| "rxm Eol s st = (if fst st = length s then [st] else [])"
| "rxm WordB s st = (if wordBefore s (fst st) \<noteq> wordAfter s (fst st) then [st] else [])"
  by pat_completeness auto
termination
  by (relation "measures [\<lambda>(r, s, st). size r, \<lambda>(r, s, st). length s - fst st]") auto

text \<open>
  A match: where it starts, where it ends, and the text of the capturing group.
  \<open>rxExec\<close> is \<^verbatim>\<open>regex.exec(s)\<close> for an expression without the global flag: the first
  start position with a match, and there the first match in backtracking order.
\<close>

record rxMatch =
  m_index :: nat
  m_end :: nat
  m_group :: "string option"

definition matchAt :: "rx \<Rightarrow> string \<Rightarrow> nat \<Rightarrow> rxMatch option" where
  "matchAt r s i =
     (case rxm r s (i, None) of
        [] \<Rightarrow> None
      | st # _ \<Rightarrow>
          Some \<lparr>m_index = i, m_end = fst st,
                m_group = map_option (\<lambda>(b, e). take (e - b) (drop b s)) (snd st)\<rparr>)"

fun rxScan :: "rx \<Rightarrow> string \<Rightarrow> nat \<Rightarrow> string \<Rightarrow> rxMatch option" where
  "rxScan r s i [] = matchAt r s i"
| "rxScan r s i (c # rest) =
     (case matchAt r s i of Some m \<Rightarrow> Some m | None \<Rightarrow> rxScan r s (Suc i) rest)"

definition rxExec :: "rx \<Rightarrow> string \<Rightarrow> rxMatch option" where
  "rxExec r s = rxScan r s 0 s"

definition rxTest :: "rx \<Rightarrow> string \<Rightarrow> bool" where
  "rxTest r s \<longleftrightarrow> rxExec r s \<noteq> None"

text \<open>\<^verbatim>\<open>s.replace(regex, "")\<close> without the global flag: the first match is cut out.\<close>

definition rxRemoveFirst :: "rx \<Rightarrow> string \<Rightarrow> string" where
  "rxRemoveFirst r s =
     (case rxExec r s of None \<Rightarrow> s | Some m \<Rightarrow> take (m_index m) s @ drop (m_end m) s)"

text \<open>
  Building blocks: a literal, a literal under the \<^verbatim>\<open>i\<close> flag (two characters are the
  same when their lower-case forms are), \<^verbatim>\<open>r+\<close>, and the classes \<^verbatim>\<open>\d\<close> and \<^verbatim>\<open>\s\<close>.
\<close>

fun Lit :: "string \<Rightarrow> rx" where
  "Lit [] = Eps"
| "Lit [c] = Chr (\<lambda>d. d = c)"
| "Lit (c # cs) = Seq (Chr (\<lambda>d. d = c)) (Lit cs)"

fun LitI :: "string \<Rightarrow> rx" where
  "LitI [] = Eps"
| "LitI [c] = Chr (\<lambda>d. toLowerChar d = toLowerChar c)"
| "LitI (c # cs) = Seq (Chr (\<lambda>d. toLowerChar d = toLowerChar c)) (LitI cs)"

definition Plus :: "rx \<Rightarrow> rx" where
  "Plus r = Seq r (Star r)"

definition Digit :: rx where
  "Digit = Chr isDigit"

definition Space :: rx where
  "Space = Chr isSpace"

fun Seqs :: "rx list \<Rightarrow> rx" where
  "Seqs [] = Eps"
| "Seqs [r] = r"
| "Seqs (r # rs) = Seq r (Seqs rs)"

fun Alts :: "rx list \<Rightarrow> rx" where
  "Alts [] = Eps"
| "Alts [r] = r"
| "Alts (r # rs) = Alt r (Alts rs)"

text \<open>The expressions of the source.\<close>

text \<open>\<^verbatim>\<open>/(vote|points|serve|reception|attack|tot|err|pos%|coach|set)/i\<close>\<close>

definition TEAM_HEADER_EXCLUSION_REGEX :: rx where
  "TEAM_HEADER_EXCLUSION_REGEX =
     Cap (Alts [LitI ''vote'', LitI ''points'', LitI ''serve'', LitI ''reception'',
                LitI ''attack'', LitI ''tot'', LitI ''err'', LitI ''pos%'', LitI ''coach'',
                LitI ''set''])"

text \<open>\<^verbatim>\<open>/^(Points\s+won|Head\s+Coach|Assistant|Set\s+\d+)/i\<close>\<close>

definition SECTION_END_REGEX :: rx where
  "SECTION_END_REGEX =
     Seq Bol (Cap (Alts [Seqs [LitI ''Points'', Plus Space, LitI ''won''],
                         Seqs [LitI ''Head'', Plus Space, LitI ''Coach''],
                         LitI ''Assistant'',
                         Seqs [LitI ''Set'', Plus Space, Plus Digit]]))"

text \<open>\<^verbatim>\<open>/^([+-]?\d+(?:[.,]\d+)?%?)$/\<close>\<close>

definition STAT_TOKEN_REGEX :: rx where
  "STAT_TOKEN_REGEX =
     Seqs [Bol,
           Cap (Seqs [Opt (Chr (\<lambda>c. c = CHR ''+'' \<or> c = CHR ''-'')),
                      Plus Digit,
                      Opt (Seq (Chr (\<lambda>c. c = CHR ''.'' \<or> c = CHR '','')) (Plus Digit)),
                      Opt (Lit ''%'')]),
           Eol]"

text \<open>\<^verbatim>\<open>/(?:(?:date|data)\s*[:-]?\s*)?(\d{1,2}[./-]\d{1,2}[./-]\d{2,4})/i\<close>\<close>

definition dateSeparator :: "char \<Rightarrow> bool" where
  "dateSeparator c \<longleftrightarrow> c = CHR ''.'' \<or> c = CHR ''/'' \<or> c = CHR ''-''"

definition DATE_REGEX :: rx where
  "DATE_REGEX =
     Seq (Opt (Seqs [Alt (LitI ''date'') (LitI ''data''), Star Space,
                     Opt (Chr (\<lambda>c. c = CHR '':'' \<or> c = CHR ''-'')), Star Space]))
         (Cap (Seqs [Digit, Opt Digit, Chr dateSeparator,
                     Digit, Opt Digit, Chr dateSeparator,
                     Digit, Digit, Opt (Seq Digit (Opt Digit))]))"

text \<open>
  \<^verbatim>\<open>/(?:(?:time|hora|hor\u00e1rio|horario)\s*[:-]?\s*)?((?:[01]?\d|2[0-3])[:,h]\d{2}(?:[:,h]\d{2})?\s*(?:am|pm)?)\b/i\<close>
\<close>

definition timeSeparator :: "char \<Rightarrow> bool" where
  "timeSeparator c \<longleftrightarrow> c = CHR '':'' \<or> c = CHR '','' \<or> c = CHR ''h'' \<or> c = CHR ''H''"

definition TIME_REGEX :: rx where
  "TIME_REGEX =
     Seqs [Opt (Seqs [Alts [LitI ''time'', LitI ''hora'',
                            LitI (''hor'' @ [CHR 0xE1] @ ''rio''), LitI ''horario''],
                      Star Space, Opt (Chr (\<lambda>c. c = CHR '':'' \<or> c = CHR ''-'')), Star Space]),
           Cap (Seqs [Alt (Seq (Opt (Chr (\<lambda>c. c = CHR ''0'' \<or> c = CHR ''1''))) Digit)
                          (Seq (Lit ''2'') (Chr (\<lambda>c. CHR ''0'' \<le> c \<and> c \<le> CHR ''3''))),
                      Chr timeSeparator, Digit, Digit,
                      Opt (Seqs [Chr timeSeparator, Digit, Digit]),
                      Star Space,
                      Opt (Alt (LitI ''am'') (LitI ''pm''))]),
           WordB]"

text \<open>\<^verbatim>\<open>/\s*\d+\s*-\s*\d+\s*$/\<close> and \<^verbatim>\<open>/\d+$/\<close>, the score suffixes of a team header.\<close>

definition SCORE_SUFFIX_REGEX :: rx where
  "SCORE_SUFFIX_REGEX =
     Seqs [Star Space, Plus Digit, Star Space, Lit ''-'', Star Space, Plus Digit, Star Space, Eol]"

definition TRAILING_DIGITS_REGEX :: rx where
  "TRAILING_DIGITS_REGEX = Seq (Plus Digit) Eol"

text \<open>\<^verbatim>\<open>/^[A-Z\u00c0-\u00da0-9][A-Za-z\u00c0-\u00fa0-9' ]*$/\<close>, the test of \<open>isValidChunk\<close>.\<close>

definition VALID_CHUNK_REGEX :: rx where
  "VALID_CHUNK_REGEX =
     Seqs [Bol,
           Chr (\<lambda>c. (CHR ''A'' \<le> c \<and> c \<le> CHR ''Z'') \<or> (CHR 0xC0 \<le> c \<and> c \<le> CHR 0xDA) \<or>
                     isDigit c),
           Star (Chr (\<lambda>c. isAsciiLetter c \<or> (CHR 0xC0 \<le> c \<and> c \<le> CHR 0xFA) \<or> isDigit c \<or>
                           c = CHR 0x27 \<or> c = CHR '' '')),
           Eol]"

subsection \<open>Reading lines: text, team headers, player rows\<close>

text \<open>\<open>getLineText\<close>.\<close>

definition getLineText :: "Line \<Rightarrow> string" where
  "getLineText line =
     trim (collapseSpaces (join '' ''
       (filter (\<lambda>s. s \<noteq> []) (map (\<lambda>token. trim (lt_str token)) (l_tokens line)))))"

definition isValidChunk :: "string \<Rightarrow> bool" where
  "isValidChunk chunk = rxTest VALID_CHUNK_REGEX chunk"

text \<open>
  \<open>detectTeamHeader\<close>; \<open>None\<close> is \<^verbatim>\<open>null\<close>. The index of the keyword match in the
  lower-case text is used on the text itself: \<^verbatim>\<open>toLowerCase\<close> keeps the length here.
\<close>

definition detectTeamHeader :: "string \<Rightarrow> string option" where
  "detectTeamHeader text =
     (if text = [] then None
      else let normalized = trim (collapseSpaces text) in
        if normalized = [] then None
        else let lower = toLowerCase normalized;
                 trimmedBeforeKeywords =
                   (case rxExec TEAM_HEADER_EXCLUSION_REGEX lower of
                      Some keywordMatch \<Rightarrow> trim (take (m_index keywordMatch) normalized)
                    | None \<Rightarrow> normalized) in
          if trimmedBeforeKeywords = [] then None
          else let withoutScores =
                     trim (rxRemoveFirst TRAILING_DIGITS_REGEX
                             (rxRemoveFirst SCORE_SUFFIX_REGEX trimmedBeforeKeywords)) in
            if withoutScores = [] then None
            else let cleanText = trim (collapseSpaces (digitRunsToSpace withoutScores)) in
              if includes_str cleanText ''-'' then
                (let parts = filter isValidChunk (filter (\<lambda>s. s \<noteq> [])
                               (map trim (splitOn (\<lambda>c. c = CHR ''-'') cleanText))) in
                 if length parts \<ge> 1 then Some (join '' - '' parts) else None)
              else if isValidChunk cleanText then Some cleanText
              else None)"

definition isSectionTerminator :: "string \<Rightarrow> bool" where
  "isSectionTerminator text = rxTest SECTION_END_REGEX text"

definition isStatValue :: "string \<Rightarrow> bool" where
  "isStatValue v =
     (if v = [] then False
      else let normalized = trim v in
        if normalized = [] then False
        else normalized = ''.'' \<or> normalized = ''-'' \<or> rxTest STAT_TOKEN_REGEX normalized)"

text \<open>
  \<open>splitTokenText\<close>: a token whose text holds a space and splits into two words or more
  becomes one token per word, with \<open>x\<close> and \<open>width\<close> shared out by the number of characters.
  \<^verbatim>\<open>widthPerChar * part.length || token.width\<close>: a product that is 0 or NaN is falsy.
  \<^verbatim>\<open>cursorX += estimatedWidth + widthPerChar\<close> adds the sum of the two to \<open>cursorX\<close>.
\<close>

fun splitPieces :: "LineToken \<Rightarrow> number \<Rightarrow> number \<Rightarrow> string list \<Rightarrow> LineToken list" where
  "splitPieces token widthPerChar cursorX [] = []"
| "splitPieces token widthPerChar cursorX (part # parts) =
     (let product = widthPerChar * numberOfNat (length part);
          estimatedWidth = (if truthy product then product else lt_width token)
      in token\<lparr>lt_str := part, lt_x := cursorX, lt_width := estimatedWidth\<rparr>
         # splitPieces token widthPerChar (cursorX + (estimatedWidth + widthPerChar)) parts)"

definition splitTokenText :: "LineToken \<Rightarrow> LineToken list" where
  "splitTokenText token =
     (let original = lt_str token in
      if \<not> includes_str original '' '' then [token]
      else let parts = splitWords original in
        if length parts \<le> 1 then [token]
        else let widthPerChar =
                   lt_width token / numberOfNat (if length original = 0 then 1 else length original)
             in splitPieces token widthPerChar (lt_x token) parts)"

text \<open>
  The tokens of a line as \<open>parsePlayerLine\<close> and \<open>inferAnchorsFromHeader\<close> read them:
  split, trimmed, the empty ones dropped.
\<close>

definition flattenTokens :: "Line \<Rightarrow> StatToken list" where
  "flattenTokens line =
     filter (\<lambda>token. t_text token \<noteq> [])
       (map (\<lambda>token. \<lparr>t_text = trim (lt_str token), t_x = lt_x token,
                       t_width = lt_width token, t_height = lt_height token\<rparr>)
          (concat (map splitTokenText (l_tokens line))))"

text \<open>\<^verbatim>\<open>/^L+$/i.test(s)\<close>: the libero marker.\<close>

definition isLiberoMarker :: "string \<Rightarrow> bool" where
  "isLiberoMarker s \<longleftrightarrow> s \<noteq> [] \<and> list_all (\<lambda>c. c = CHR ''L'' \<or> c = CHR ''l'') s"

text \<open>
  The \<^verbatim>\<open>for\<close> loop over the first three tokens: the first token with one to three digits
  and no letters but the libero marker gives \<open>(numberIndex, numberText)\<close>.
\<close>

fun findNumber :: "nat \<Rightarrow> StatToken list \<Rightarrow> (nat \<times> string) option" where
  "findNumber i [] = None"
| "findNumber i (token # tokens) =
     (let raw = filter (\<lambda>c. \<not> isSpace c) (t_text token);
          digits = filter isDigit raw;
          remainder = filter isAsciiLetter (filter (\<lambda>c. \<not> isDigit c) raw)
      in if digits = [] \<or> length digits > 3 then findNumber (Suc i) tokens
         else if remainder \<noteq> [] \<and> \<not> isLiberoMarker remainder then findNumber (Suc i) tokens
         else Some (i, digits))"

text \<open>The characters a name keeps: \<^verbatim>\<open>[A-Za-z\u00c0-\u00ff'\-\s]\<close>.\<close>

definition isNameChar :: "char \<Rightarrow> bool" where
  "isNameChar c \<longleftrightarrow>
     isAsciiLetter c \<or> CHR 0xC0 \<le> c \<or> c = CHR 0x27 \<or> c = CHR ''-'' \<or> isSpace c"

text \<open>
  One round of \<^verbatim>\<open>remainingTokens.forEach\<close>, on the state
  \<open>(nameParts, statTokens, collectingStats)\<close>.
\<close>

definition classifyToken ::
  "StatToken \<Rightarrow> string list \<times> StatToken list \<times> bool \<Rightarrow> string list \<times> StatToken list \<times> bool" where
  "classifyToken token st =
     (case st of (nameParts, statTokens, collectingStats) \<Rightarrow>
        if \<not> collectingStats \<and> \<not> isStatValue (t_text token) then
          (if filter isNameChar (t_text token) = [] then st
           else (nameParts @ [t_text token], statTokens, collectingStats))
        else (nameParts, statTokens @ [token], True))"

record ParsedPlayer =
  pp_number :: nat
  pp_name :: string
  pp_rawStats :: "string list"
  pp_lineText :: string
  pp_statTokens :: "StatToken list"

text \<open>
  The tokens after the number, the libero markers that follow it dropped (the
  \<^verbatim>\<open>while\<close> loop).
\<close>

definition remainingTokens :: "StatToken list \<Rightarrow> nat \<Rightarrow> StatToken list" where
  "remainingTokens tokens numberIndex =
     dropWhile (\<lambda>token. isLiberoMarker (filter isAsciiLetter (t_text token)))
       (drop (numberIndex + 1) tokens)"

text \<open>\<open>parsePlayerLine\<close>; \<open>None\<close> is \<^verbatim>\<open>null\<close>.\<close>

definition parsePlayerLine :: "Line \<Rightarrow> ParsedPlayer option" where
  "parsePlayerLine line =
     (let tokens = flattenTokens line in
      if tokens = [] then None
      else case findNumber 0 (take 3 tokens) of
        None \<Rightarrow> None
      | Some (numberIndex, numberText) \<Rightarrow>
          (case fold classifyToken (remainingTokens tokens numberIndex) ([], [], False) of
             (nameParts, statTokens, collectingStats) \<Rightarrow>
               let name = trim (join '' '' nameParts) in
               if name = [] then None
               else Some \<lparr>pp_number = digitsValue numberText, pp_name = name,
                           pp_rawStats = map t_text statTokens,
                           pp_lineText = getLineText line,
                           pp_statTokens = statTokens\<rparr>))"

subsection \<open>Extracting the players\<close>

record FoundPlayer =
  fp_player :: ParsedPlayer
  fp_team :: string

text \<open>The variables of the loop of \<open>extractPlayers\<close>, and its result.\<close>

record ExtractState =
  playersFound :: "FoundPlayer list"
  currentTeam :: "string option"
  lastPlayerLineIndex :: int
  playersTotalCount :: nat

record ExtractResult =
  r_players :: "FoundPlayer list"
  r_lastPlayerLineIndex :: int

text \<open>
  The \<^verbatim>\<open>for\<close> loop of \<open>extractPlayers\<close>, from line \<open>index\<close> on; \<open>lines\<close> are the lines
  still to read.
\<close>

fun extractLoop :: "nat \<Rightarrow> Line list \<Rightarrow> ExtractState \<Rightarrow> ExtractResult" where
  "extractLoop index [] st =
     \<lparr>r_players = playersFound st, r_lastPlayerLineIndex = lastPlayerLineIndex st\<rparr>"
| "extractLoop index (line # lines) st =
     (let text = getLineText line in
      if text = [] then extractLoop (Suc index) lines st
      else if includes_str (toLowerCase text) ''players total'' then
        (if playersTotalCount st + 1 \<ge> 2 then
           \<lparr>r_players = playersFound st,
            r_lastPlayerLineIndex =
              (if lastPlayerLineIndex st \<ge> 0 then lastPlayerLineIndex st else int index - 1)\<rparr>
         else extractLoop (Suc index) lines
                (st\<lparr>playersTotalCount := playersTotalCount st + 1, currentTeam := None\<rparr>))
      else let teamHeader = detectTeamHeader text in
        if \<not> falsy teamHeader then extractLoop (Suc index) lines (st\<lparr>currentTeam := teamHeader\<rparr>)
        else if isSectionTerminator text then
          extractLoop (Suc index) lines (st\<lparr>currentTeam := None\<rparr>)
        else if falsy (currentTeam st) then extractLoop (Suc index) lines st
        else case parsePlayerLine line of
          None \<Rightarrow> extractLoop (Suc index) lines st
        | Some possiblePlayer \<Rightarrow>
            extractLoop (Suc index) lines
              (st\<lparr>playersFound :=
                    playersFound st @
                      [\<lparr>fp_player = possiblePlayer, fp_team = the (currentTeam st)\<rparr>],
                  lastPlayerLineIndex := int index\<rparr>))"

definition extractPlayers :: "Line list \<Rightarrow> ExtractResult" where
  "extractPlayers lines =
     extractLoop 0 lines
       \<lparr>playersFound = [], currentTeam = None, lastPlayerLineIndex = - 1, playersTotalCount = 0\<rparr>"

subsection \<open>Column anchors\<close>

definition anchorOf :: "StatToken \<Rightarrow> ColumnAnchor" where
  "anchorOf token =
     \<lparr>a_start = t_x token, a_end = t_x token + t_width token,
      a_center = t_x token + t_width token / Fin 2, a_height = t_height token\<rparr>"

definition isHeaderLine :: "Line \<Rightarrow> bool" where
  "isHeaderLine line =
     (let text = toLowerCase (getLineText line) in
      includes_str text ''pos%'' \<and> includes_str text ''vote'' \<and> includes_str text ''blo'')"

text \<open>\<^verbatim>\<open>xs.findIndex(p)\<close>, \<open>None\<close> for \<^verbatim>\<open>-1\<close>.\<close>

fun findIndex :: "('a \<Rightarrow> bool) \<Rightarrow> 'a list \<Rightarrow> nat option" where
  "findIndex p [] = None"
| "findIndex p (x # xs) = (if p x then Some 0 else map_option Suc (findIndex p xs))"

text \<open>\<open>inferAnchorsFromHeader\<close>; \<open>None\<close> is \<^verbatim>\<open>null\<close>.\<close>

definition inferAnchorsFromHeader :: "Line list \<Rightarrow> (ColumnAnchor list \<times> int) option" where
  "inferAnchorsFromHeader lines =
     (case List.find isHeaderLine lines of
        None \<Rightarrow> None
      | Some headerLine \<Rightarrow>
          let flattenedTokens = flattenTokens headerLine in
          (case findIndex (\<lambda>token. t_text token = ''1'') flattenedTokens of
             None \<Rightarrow> None
           | Some firstDataIndex \<Rightarrow>
               let dataTokens = drop firstDataIndex flattenedTokens in
               if dataTokens = [] then None
               else let setCount =
                          (case findIndex (\<lambda>token. toLowerCase (t_text token) = ''vote'') dataTokens of
                             Some firstVoteIndex \<Rightarrow>
                               if firstVoteIndex > 0 then int firstVoteIndex else DEFAULT_SET_COLUMNS
                           | None \<Rightarrow> DEFAULT_SET_COLUMNS);
                        columnLabels = buildTableColumnLabels (Some setCount) in
                 if length dataTokens < length columnLabels then None
                 else Some (map (\<lambda>index. anchorOf (dataTokens ! index)) [0..<length columnLabels],
                            setCount)))"

text \<open>
  \<open>inferColumnAnchors\<close>: the anchors (\<open>None\<close> for \<^verbatim>\<open>null\<close>) and the set count. The fallback
  takes the player with the most non-blank stat tokens, by a stable sort on the
  descending count.
\<close>

definition inferColumnAnchors ::
  "FoundPlayer list \<Rightarrow> Line list \<Rightarrow> int \<Rightarrow> ColumnAnchor list option \<times> int" where
  "inferColumnAnchors players lines currentSetCount =
     (case inferAnchorsFromHeader lines of
        Some (anchors, setCount) \<Rightarrow> (Some anchors, setCount)
      | None \<Rightarrow>
          let columnLabels = buildTableColumnLabels (Some currentSetCount) in
          if players = [] then (None, currentSetCount)
          else (case sort_key (\<lambda>tokens. - int (length tokens))
                       (filter (\<lambda>tokens. length tokens \<ge> length columnLabels)
                          (map (\<lambda>player. filter (\<lambda>token. trim (t_text token) \<noteq> [])
                                            (pp_statTokens (fp_player player))) players)) of
                  [] \<Rightarrow> (None, currentSetCount)
                | candidateTokens # _ \<Rightarrow>
                    (Some (map (\<lambda>index. anchorOf (candidateTokens ! index))
                             [0..<length columnLabels]),
                     currentSetCount)))"

subsection \<open>Match date and time\<close>

text \<open>
  \<open>formatDateForInput\<close>; \<open>None\<close> is \<^verbatim>\<open>null\<close>. The last steps, on the three numbers: \<^verbatim>\<open>!day\<close>
  holds for 0 (and for \<^verbatim>\<open>NaN\<close>, which is \<open>None\<close> before); a year below 100 is moved to
  the 1900s from 70 on and to the 2000s below; day and month are swapped when the month
  is above 12 and the day is not.
\<close>

definition dateString :: "nat \<Rightarrow> nat \<Rightarrow> nat \<Rightarrow> string" where
  "dateString year month day = String_nat year @ ''-'' @ pad month @ ''-'' @ pad day"

definition formatDateNumbers :: "nat \<Rightarrow> nat \<Rightarrow> nat \<Rightarrow> string option" where
  "formatDateNumbers day month year =
     (if day = 0 \<or> month = 0 \<or> year = 0 then None
      else let year' = (if year < 100 then year + (if year \<ge> 70 then 1900 else 2000) else year);
               day' = (if month > 12 \<and> day \<le> 12 then month else day);
               month' = (if month > 12 \<and> day \<le> 12 then day else month) in
        if day' > 31 \<or> month' > 12 then None
        else Some (dateString year' month' day'))"

definition formatDateForInput :: "string \<Rightarrow> string option" where
  "formatDateForInput rawDate =
     (if rawDate = [] then None
      else let parts = filter (\<lambda>part. part \<noteq> []) (map trim (splitOn dateSeparator rawDate)) in
        if length parts < 3 then None
        else case Number (parts ! 0) of
          None \<Rightarrow> None
        | Some day \<Rightarrow>
            (case Number (parts ! 1) of
               None \<Rightarrow> None
             | Some month \<Rightarrow>
                 (case Number (parts ! 2) of
                    None \<Rightarrow> None
                  | Some year \<Rightarrow> formatDateNumbers day month year)))"

text \<open>
  \<open>formatTimeForInput\<close>. \<^verbatim>\<open>trimmed.match(/(am|pm)$/)\<close> finds the meridiem the lower-case
  text ends with, and \<^verbatim>\<open>replace(/(am|pm)$/i, '')\<close> cuts it off. The segments are the
  non-empty pieces between colons, after \<^verbatim>\<open>h\<close> has become a colon and white space is gone.
\<close>

definition meridiemOf :: "string \<Rightarrow> string option" where
  "meridiemOf trimmed =
     (if endsWith trimmed ''am'' then Some ''am''
      else if endsWith trimmed ''pm'' then Some ''pm'' else None)"

definition timeSegments :: "string \<Rightarrow> string list" where
  "timeSegments trimmed =
     (let withoutMeridiem = (if meridiemOf trimmed = None then trimmed
                             else take (length trimmed - 2) trimmed);
          numericPart = trim (filter (\<lambda>c. \<not> isSpace c)
                          (map (\<lambda>c. if c = CHR ''h'' \<or> c = CHR ''H'' then CHR '':'' else c)
                             withoutMeridiem))
      in filter (\<lambda>seg. seg \<noteq> []) (splitOn (\<lambda>c. c = CHR '':'') numericPart))"

definition timeString :: "string option \<Rightarrow> nat \<Rightarrow> nat \<Rightarrow> string" where
  "timeString meridiem hours minutes =
     (let hours' = (if meridiem = Some ''pm'' \<and> hours < 12 then hours + 12
                    else if meridiem = Some ''am'' \<and> hours = 12 then 0 else hours)
      in pad (hours' mod 24) @ '':'' @ pad minutes)"

definition formatTimeForInput :: "string \<Rightarrow> string option" where
  "formatTimeForInput rawTime =
     (if rawTime = [] then None
      else let trimmed = toLowerCase (trim rawTime);
               segments = timeSegments trimmed in
        if segments = [] then None
        else case Number (segments ! 0) of
          None \<Rightarrow> None
        | Some hours \<Rightarrow>
            (case (if length segments \<ge> 2 then Number (segments ! 1) else Some 0) of
               None \<Rightarrow> None
             | Some minutes \<Rightarrow> Some (timeString (meridiemOf trimmed) hours minutes)))"

text \<open>
  What one line gives: the formatted first date match and first time match of its text.
\<close>

definition dateOfText :: "string \<Rightarrow> string option" where
  "dateOfText text =
     (case rxExec DATE_REGEX text of
        None \<Rightarrow> None
      | Some dateMatch \<Rightarrow>
          (case m_group dateMatch of None \<Rightarrow> None | Some g \<Rightarrow> formatDateForInput g))"

definition timeOfText :: "string \<Rightarrow> string option" where
  "timeOfText text =
     (case rxExec TIME_REGEX text of
        None \<Rightarrow> None
      | Some timeMatch \<Rightarrow>
          (case m_group timeMatch of None \<Rightarrow> None | Some g \<Rightarrow> formatTimeForInput g))"

text \<open>
  The \<^verbatim>\<open>for\<close> loop of \<open>detectMatchMetadata\<close>, on the state \<open>(detectedDate, detectedTime)\<close>;
  it breaks when both are found.
\<close>

fun metadataLoop ::
  "Line list \<Rightarrow> string option \<Rightarrow> string option \<Rightarrow> string option \<times> string option" where
  "metadataLoop [] detectedDate detectedTime = (detectedDate, detectedTime)"
| "metadataLoop (line # lines) detectedDate detectedTime =
     (let text = getLineText line in
      if text = [] then metadataLoop lines detectedDate detectedTime
      else let detectedDate' =
                 (if falsy detectedDate
                  then (case rxExec DATE_REGEX text of
                          None \<Rightarrow> detectedDate | Some m \<Rightarrow> dateOfText text)
                  else detectedDate);
               detectedTime' =
                 (if falsy detectedTime
                  then (case rxExec TIME_REGEX text of
                          None \<Rightarrow> detectedTime | Some m \<Rightarrow> timeOfText text)
                  else detectedTime) in
        if \<not> falsy detectedDate' \<and> \<not> falsy detectedTime' then (detectedDate', detectedTime')
        else metadataLoop lines detectedDate' detectedTime')"

definition detectMatchMetadata :: "Line list \<Rightarrow> string option \<times> string option" where
  "detectMatchMetadata lines =
     (if lines = [] then (None, None) else metadataLoop lines None None)"

subsection \<open>Predicates for stating the properties\<close>

text \<open>A cell is the placeholder, or the non-empty normalised text of one of the tokens.\<close>

definition cellFromTokens :: "StatToken list \<Rightarrow> string \<Rightarrow> bool" where
  "cellFromTokens tokens cell \<longleftrightarrow>
     cell = EMPTY_VALUE_PLACEHOLDER \<or>
     (cell \<noteq> [] \<and> cell \<in> set (map (\<lambda>t. normalizeTokenText (t_text t)) tokens))"

text \<open>
  An anchor can take a token when its score is below \<^verbatim>\<open>Infinity\<close> (it is a finite number).
  Among the first \<open>k\<close> anchors, \<open>i\<close> is free and can take the token, no free anchor that can
  take it scores lower, and every such anchor before \<open>i\<close> scores strictly higher.
\<close>

definition leastBest :: "ColumnAnchor list \<Rightarrow> bool list \<Rightarrow> StatToken \<Rightarrow> nat \<Rightarrow> nat \<Rightarrow> bool" where
  "leastBest anchors occ t k i \<longleftrightarrow>
     i < k \<and> \<not> occ ! i \<and> anchorScore (anchors ! i) t < Infinity \<and>
     (\<forall>j<k. \<not> occ ! j \<and> anchorScore (anchors ! j) t < Infinity \<longrightarrow>
        anchorScore (anchors ! i) t \<le> anchorScore (anchors ! j) t \<and>
        (j < i \<longrightarrow> anchorScore (anchors ! i) t < anchorScore (anchors ! j) t))"

text \<open>
  The invariant of the \<^verbatim>\<open>reduce\<close> in \<open>groupPlayersByTeam\<close>: the keys are distinct, the
  players seen so far are spread over the rows, each under its own team name.
\<close>

definition accInv :: "Player list \<Rightarrow> (string \<times> Player list) list \<Rightarrow> bool" where
  "accInv seen acc \<longleftrightarrow>
     distinct (map fst acc) \<and> mset (concat (map snd acc)) = mset seen \<and>
     (\<forall>e\<in>set acc. \<forall>p\<in>set (snd e). teamNameOf p = fst e)"

text \<open>The push onto the row of key \<open>k\<close>, and the group made of one entry.\<close>

definition pushTo :: "string \<Rightarrow> Player \<Rightarrow> string \<times> Player list \<Rightarrow> string \<times> Player list" where
  "pushTo k p e = (if fst e = k then (fst e, snd e @ [p]) else e)"

definition mkGroup :: "string \<times> Player list \<Rightarrow> TeamGroup" where
  "mkGroup e = \<lparr>g_team = fst e, g_players = sort_key p_number (snd e)\<rparr>"

text \<open>
  Two heights are near when the code's test holds of them: the absolute value of their
  rounded difference is at most the tolerance. Nearness is transitive on a list of items
  when it is so on the items' heights: then the items fall into classes of mutually near
  heights.
\<close>

definition near :: "real \<Rightarrow> real \<Rightarrow> real \<Rightarrow> bool" where
  "near tolerance a b \<longleftrightarrow> \<bar>Fin a - Fin b\<bar> \<le> Fin tolerance"

definition nearTransitive :: "real \<Rightarrow> Item list \<Rightarrow> bool" where
  "nearTransitive tolerance items \<longleftrightarrow>
     (\<forall>a\<in>set items. \<forall>b\<in>set items. \<forall>c\<in>set items.
        near tolerance (i_y a) (i_y b) \<and> near tolerance (i_y b) (i_y c)
          \<longrightarrow> near tolerance (i_y a) (i_y c))"

text \<open>
  The invariant of the clustering loop when nearness is transitive: each row holds the
  items seen so far that are near its bucket's height, the buckets are heights of items
  seen, no two buckets are near, and every item seen is near some bucket.
\<close>

definition bucketInv :: "real \<Rightarrow> Item list \<Rightarrow> real list \<times> Item list list \<Rightarrow> bool" where
  "bucketInv tolerance seen st \<longleftrightarrow>
     snd st = map (\<lambda>b. filter (\<lambda>it. near tolerance b (i_y it)) seen) (fst st) \<and>
     set (fst st) \<subseteq> i_y ` set seen \<and>
     (\<forall>i<length (fst st). \<forall>j<length (fst st). i \<noteq> j \<longrightarrow> \<not> near tolerance (fst st ! i) (fst st ! j)) \<and>
     (\<forall>s\<in>set seen. \<exists>b\<in>set (fst st). near tolerance b (i_y s))"

text \<open>The class of the items near a height, and the classes of a list of items.\<close>

definition yClass :: "real \<Rightarrow> Item list \<Rightarrow> real \<Rightarrow> Item multiset" where
  "yClass tolerance items b = filter_mset (\<lambda>it. near tolerance b (i_y it)) (mset items)"

definition yClasses :: "real \<Rightarrow> Item list \<Rightarrow> Item multiset multiset" where
  "yClasses tolerance items = mset_set ((\<lambda>s. yClass tolerance items (i_y s)) ` set items)"

text \<open>The token a line keeps of an item.\<close>

definition tokenOfItem :: "Item \<Rightarrow> LineToken" where
  "tokenOfItem token = \<lparr>lt_str = i_str token, lt_x = Fin (i_x token),
     lt_width = Fin (i_width token), lt_height = Fin (i_height token)\<rparr>"

text \<open>
  A token that is not stat-shaped, and a token whose text keeps a character when all but
  name characters are removed.
\<close>

definition notStat :: "StatToken \<Rightarrow> bool" where
  "notStat token \<longleftrightarrow> \<not> isStatValue (t_text token)"

definition nameLike :: "StatToken \<Rightarrow> bool" where
  "nameLike token \<longleftrightarrow> filter isNameChar (t_text token) \<noteq> []"

text \<open>
  A line whose text contains "players total", in any case: the marker that closes a
  team's players.
\<close>

definition isTotalsLine :: "Line \<Rightarrow> bool" where
  "isTotalsLine line \<longleftrightarrow> includes_str (toLowerCase (getLineText line)) ''players total''"

text \<open>
  The loop of \<open>extractPlayers\<close> taken apart: the state it starts from, the result when it
  returns at a marker, the result at the end of the lines, the state after a line at
  which it does not return, and the state after a run of such lines.
\<close>

definition initialState :: ExtractState where
  "initialState =
     \<lparr>playersFound = [], currentTeam = None, lastPlayerLineIndex = - 1, playersTotalCount = 0\<rparr>"

definition stopResult :: "nat \<Rightarrow> ExtractState \<Rightarrow> ExtractResult" where
  "stopResult index st =
     \<lparr>r_players = playersFound st,
      r_lastPlayerLineIndex =
        (if lastPlayerLineIndex st \<ge> 0 then lastPlayerLineIndex st else int index - 1)\<rparr>"

definition endResult :: "ExtractState \<Rightarrow> ExtractResult" where
  "endResult st = \<lparr>r_players = playersFound st, r_lastPlayerLineIndex = lastPlayerLineIndex st\<rparr>"

definition nextState :: "nat \<Rightarrow> Line \<Rightarrow> ExtractState \<Rightarrow> ExtractState" where
  "nextState index line st =
     (let text = getLineText line in
      if text = [] then st
      else if isTotalsLine line then st\<lparr>playersTotalCount := playersTotalCount st + 1, currentTeam := None\<rparr>
      else let teamHeader = detectTeamHeader text in
        if \<not> falsy teamHeader then st\<lparr>currentTeam := teamHeader\<rparr>
        else if isSectionTerminator text then st\<lparr>currentTeam := None\<rparr>
        else if falsy (currentTeam st) then st
        else case parsePlayerLine line of
          None \<Rightarrow> st
        | Some possiblePlayer \<Rightarrow>
            st\<lparr>playersFound :=
                 playersFound st @
                   [\<lparr>fp_player = possiblePlayer, fp_team = the (currentTeam st)\<rparr>],
               lastPlayerLineIndex := int index\<rparr>)"

fun scanLines :: "nat \<Rightarrow> Line list \<Rightarrow> ExtractState \<Rightarrow> ExtractState" where
  "scanLines index [] st = st"
| "scanLines index (line # lines) st = scanLines (Suc index) lines (nextState index line st)"

text \<open>
  The candidates of the fallback of \<open>inferColumnAnchors\<close>: the players' non-blank stat
  tokens, where they are at least as many as the labels, the longest list first.
\<close>

definition candidateTokens :: "FoundPlayer list \<Rightarrow> int \<Rightarrow> StatToken list list" where
  "candidateTokens players currentSetCount =
     sort_key (\<lambda>tokens. - int (length tokens))
       (filter (\<lambda>tokens. length tokens \<ge> length (buildTableColumnLabels (Some currentSetCount)))
          (map (\<lambda>player. filter (\<lambda>token. trim (t_text token) \<noteq> [])
                            (pp_statTokens (fp_player player))) players))"

text \<open>
  The first value of a list of optional values, a value or else another, and the date
  and the time that one line gives.
\<close>

fun firstSome :: "'a option list \<Rightarrow> 'a option" where
  "firstSome [] = None"
| "firstSome (None # xs) = firstSome xs"
| "firstSome (Some x # xs) = Some x"

definition orElse :: "'a option \<Rightarrow> 'a option \<Rightarrow> 'a option" where
  "orElse a b = (case a of None \<Rightarrow> b | Some x \<Rightarrow> Some x)"

definition dateOfLine :: "Line \<Rightarrow> string option" where
  "dateOfLine line = (if getLineText line = [] then None else dateOfText (getLineText line))"

definition timeOfLine :: "Line \<Rightarrow> string option" where
  "timeOfLine line = (if getLineText line = [] then None else timeOfText (getLineText line))"

subsection \<open>Sample lines\<close>

text \<open>A line with one token per given text, 20 units apart, each 10 wide and 8 high.\<close>

fun tokensAt :: "real \<Rightarrow> string list \<Rightarrow> LineToken list" where
  "tokensAt x [] = []"
| "tokensAt x (w # ws) =
     \<lparr>lt_str = w, lt_x = Fin x, lt_width = Fin 10, lt_height = Fin 8\<rparr> # tokensAt (x + 20) ws"

definition lineOfWords :: "string list \<Rightarrow> Line" where
  "lineOfWords ws = \<lparr>l_y = Fin 0, l_page = 1, l_tokens = tokensAt 0 ws\<rparr>"

text \<open>
  A report of two teams, each closed by its "Players Total" line, with lines after the
  second one.
\<close>

definition sampleHead :: "Line list" where
  "sampleHead =
     [lineOfWords [''TEAM ALPHA''],
      lineOfWords [''7'', ''Ana'', ''Silva'', ''12'', ''.'', ''3'', ''88%''],
      lineOfWords [''Players Total''],
      lineOfWords [''TEAM BETA''],
      lineOfWords [''9'', ''Ines'', ''Costa'', ''5'', ''.'', ''1'', ''70%'']]"

definition sampleTail :: "Line list" where
  "sampleTail =
     [lineOfWords [''TEAM GAMMA''],
      lineOfWords [''4'', ''Rui'', ''Lopes'', ''2'', ''.'', ''1'', ''50%'']]"

section \<open>The arithmetic of doubles\<close>

lemma toDouble_zero: "toDouble 0 = Fin 0"
  by (simp add: toDouble_def)

lemma toDouble_minus: "toDouble (- x) = - toDouble x"
  by (simp add: toDouble_def Let_def)

lemma abs_uminus_number: "\<bar>- x\<bar> = \<bar>x\<bar>" for x :: number
  by (cases x) simp_all

lemma minus_number_swap: "y - x = - (x - y)" for x y :: number
  by (cases x; cases y) (simp_all add: minus_number_def toDouble_minus [symmetric])

lemma abs_minus_number_commute: "\<bar>x - y\<bar> = \<bar>y - x\<bar>" for x y :: number
  using minus_number_swap [of y x] by (simp add: abs_uminus_number)

lemma minus_number_self: "Fin a - Fin a = Fin 0"
  by (simp add: minus_number_def toDouble_zero)

lemma less_number_trans: "x < y \<Longrightarrow> y < z \<Longrightarrow> x < z" for x y z :: number
  by (cases x; cases y; cases z) simp_all

lemma less_le_number_trans: "x < y \<Longrightarrow> y \<le> z \<Longrightarrow> x < z" for x y z :: number
  by (cases x; cases y; cases z) simp_all

lemma less_imp_le_number: "x < y \<Longrightarrow> x \<le> y" for x y :: number
  by (cases x; cases y) simp_all

lemma not_less_number: "x < Infinity \<Longrightarrow> y < Infinity \<Longrightarrow> \<not> x < y \<Longrightarrow> y \<le> x"
  for x y :: number
  by (cases x; cases y) simp_all

lemma le_number_refl: "x < Infinity \<Longrightarrow> x \<le> x" for x :: number
  by (cases x) simp_all

text \<open>The definitions that evaluate the arithmetic of doubles on given numbers.\<close>

lemmas double_eval =
  toDouble_def roundMagnitude_def exponentOf_def roundHalfEven_def pow2_def
  minus_number_def numberOfNat_def truthy_def Let_def

section \<open>Column labels (C2)\<close>

lemma length_buildTableColumnLabels:
  "length (buildTableColumnLabels N) = clampedSetCount N + 17"
  by (auto simp: buildTableColumnLabels_def clampedSetCount_def DEFAULT_SET_COLUMNS_def
      MAX_SET_COLUMNS_def Let_def split: option.splits)

lemma nat_clamp_eq:
  "nat (min (max 1 (if (case N of None \<Rightarrow> DEFAULT_SET_COLUMNS | Some n \<Rightarrow> n) = 0
      then DEFAULT_SET_COLUMNS else (case N of None \<Rightarrow> DEFAULT_SET_COLUMNS | Some n \<Rightarrow> n)))
      MAX_SET_COLUMNS) = clampedSetCount N"
  by (auto simp: clampedSetCount_def DEFAULT_SET_COLUMNS_def MAX_SET_COLUMNS_def
      split: option.splits)

text \<open>
  C2, as the claim states it, fails: with four sets the list has 21 entries, not 4 + 16.
  The fixed part the source enumerates (and the claim lists by name) has seventeen labels.
\<close>

theorem C2_sixteen_fixed_labels_counterexample:
  "length (buildTableColumnLabels (Some 4)) \<noteq> clampedSetCount (Some 4) + 16"
  by (simp add: length_buildTableColumnLabels)

text \<open>
  C2 (amended): for every requested set count \<open>N\<close>, \<open>buildTableColumnLabels\<close> returns the
  labels \<open>1 .. k\<close> with \<open>k = clamp(N, 1, 5)\<close> (4 when \<open>N\<close> is absent or 0), followed by
  exactly seventeen fixed labels in the source's order, so the list has length \<open>k + 17\<close>.
\<close>

theorem C2_buildTableColumnLabels:
  "1 \<le> clampedSetCount N \<and> clampedSetCount N \<le> 5 \<and>
   length (buildTableColumnLabels N) = clampedSetCount N + 17 \<and>
   take (clampedSetCount N) (buildTableColumnLabels N) =
     map (\<lambda>i. String_nat (i + 1)) [0..<clampedSetCount N] \<and>
   drop (clampedSetCount N) (buildTableColumnLabels N) =
     [''Vote'', ''Points Tot'', ''Brake Points'', ''Points Won - Lost'',
      ''Serves Tot'', ''Serves Err'', ''Serves Pts'',
      ''Receptions Tot'', ''Receptions Err'', ''Receptions Pos%'', ''Receptions Exc%'',
      ''Attacks Tot'', ''Attacks Err'', ''Attacks Blocked'', ''Attacks Pts'', ''Attacks Pts%'',
      ''BK Pts'']"
proof -
  have bounds: "1 \<le> clampedSetCount N \<and> clampedSetCount N \<le> 5"
    by (auto simp: clampedSetCount_def split: option.splits)
  have shape: "buildTableColumnLabels N =
      map (\<lambda>i. String_nat (i + 1)) [0..<clampedSetCount N] @
      [''Vote'', ''Points Tot'', ''Brake Points'', ''Points Won - Lost'',
       ''Serves Tot'', ''Serves Err'', ''Serves Pts'',
       ''Receptions Tot'', ''Receptions Err'', ''Receptions Pos%'', ''Receptions Exc%'',
       ''Attacks Tot'', ''Attacks Err'', ''Attacks Blocked'', ''Attacks Pts'', ''Attacks Pts%'',
       ''BK Pts'']"
    unfolding buildTableColumnLabels_def Let_def nat_clamp_eq by simp
  show ?thesis
    using bounds by (simp add: shape)
qed

theorem C2_buildTableColumnLabels_witness:
  "buildTableColumnLabels (Some 7) =
     [''1'', ''2'', ''3'', ''4'', ''5'',
      ''Vote'', ''Points Tot'', ''Brake Points'', ''Points Won - Lost'',
      ''Serves Tot'', ''Serves Err'', ''Serves Pts'',
      ''Receptions Tot'', ''Receptions Err'', ''Receptions Pos%'', ''Receptions Exc%'',
      ''Attacks Tot'', ''Attacks Err'', ''Attacks Blocked'', ''Attacks Pts'', ''Attacks Pts%'',
      ''BK Pts'']"
proof -
  have k: "clampedSetCount (Some 7) = 5"
    by (simp add: clampedSetCount_def)
  have idx: "[0..<5] = [0, 1, 2, 3, 4::nat]"
    by (simp add: upt_rec)
  from C2_buildTableColumnLabels [of "Some 7"]
  have "take 5 (buildTableColumnLabels (Some 7)) = map (\<lambda>i. String_nat (i + 1)) [0..<5]"
    and "drop 5 (buildTableColumnLabels (Some 7)) =
     [''Vote'', ''Points Tot'', ''Brake Points'', ''Points Won - Lost'',
      ''Serves Tot'', ''Serves Err'', ''Serves Pts'',
      ''Receptions Tot'', ''Receptions Err'', ''Receptions Pos%'', ''Receptions Exc%'',
      ''Attacks Tot'', ''Attacks Err'', ''Attacks Blocked'', ''Attacks Pts'', ''Attacks Pts%'',
      ''BK Pts'']"
    unfolding k by blast+
  then have "take 5 (buildTableColumnLabels (Some 7)) @ drop 5 (buildTableColumnLabels (Some 7)) =
     map (\<lambda>i. String_nat (i + 1)) [0..<5] @
     [''Vote'', ''Points Tot'', ''Brake Points'', ''Points Won - Lost'',
      ''Serves Tot'', ''Serves Err'', ''Serves Pts'',
      ''Receptions Tot'', ''Receptions Err'', ''Receptions Pos%'', ''Receptions Exc%'',
      ''Attacks Tot'', ''Attacks Err'', ''Attacks Blocked'', ''Attacks Pts'', ''Attacks Pts%'',
      ''BK Pts'']"
    by simp
  then show ?thesis
    unfolding append_take_drop_id idx by (simp add: String_nat.simps digit_char_def)
qed

section \<open>Token-to-column mapping (C4, C5)\<close>


lemma length_positionalColumns [simp]:
  "length (positionalColumns tokens labels) = length labels"
  by (simp add: positionalColumns_def)

lemma length_placeToken:
  "length (fst (placeToken anchors t st)) = length (fst st) \<and>
   length (snd (placeToken anchors t st)) = length (snd st)"
  by (simp add: placeToken_def Let_def split: option.splits)

lemma length_fold_placeToken:
  "length (fst (fold (placeToken anchors) tokens st)) = length (fst st) \<and>
   length (snd (fold (placeToken anchors) tokens st)) = length (snd st)"
  by (induction tokens arbitrary: st) (simp_all add: length_placeToken)

lemma length_mapTokensToColumns:
  "length (mapTokensToColumns tokens anchors labels) = length (effectiveLabels labels)"
  by (simp add: mapTokensToColumns_def Let_def length_fold_placeToken split: option.splits)

lemma cellFromTokens_mono:
  "cellFromTokens ts c \<Longrightarrow> set ts \<subseteq> set us \<Longrightarrow> cellFromTokens us c"
  by (auto simp: cellFromTokens_def)

lemma positionalCell_cell: "cellFromTokens tokens (positionalCell tokens i)"
  by (auto simp: cellFromTokens_def positionalCell_def Let_def)

lemma placeToken_cells:
  assumes "list_all (cellFromTokens us) (fst st)" "t \<in> set us"
  shows "list_all (cellFromTokens us) (fst (placeToken anchors t st))"
proof -
  have "cellFromTokens us (normalizeTokenText (t_text t))" if "normalizeTokenText (t_text t) \<noteq> []"
    using that assms(2) by (auto simp: cellFromTokens_def)
  then show ?thesis
    using assms(1)
    by (auto simp: placeToken_def Let_def list_all_iff split: option.splits
        dest!: set_update_subset_insert [THEN subsetD])
qed

lemma fold_placeToken_cells:
  "list_all (cellFromTokens us) (fst st) \<Longrightarrow> set tokens \<subseteq> set us \<Longrightarrow>
   list_all (cellFromTokens us) (fst (fold (placeToken anchors) tokens st))"
  by (induction tokens arbitrary: st) (simp_all add: placeToken_cells)

lemma mapTokensToColumns_cells:
  "list_all (cellFromTokens tokens) (mapTokensToColumns tokens anchors labels)"
proof -
  have pos: "list_all (cellFromTokens tokens) (positionalColumns tokens ls)" for ls
    by (simp add: positionalColumns_def list_all_iff positionalCell_cell)
  have init: "list_all (cellFromTokens tokens) (replicate n EMPTY_VALUE_PLACEHOLDER)" for n
    by (simp add: list_all_iff cellFromTokens_def)
  show ?thesis
    using pos fold_placeToken_cells [of tokens "(replicate _ EMPTY_VALUE_PLACEHOLDER, _)" tokens] init
    by (auto simp: mapTokensToColumns_def Let_def split: option.splits)
qed


lemma considerAnchor_fold:
  "case fold (considerAnchor anchors occ t) [0..<k] (None, Infinity) of
     (None, bs) \<Rightarrow> bs = Infinity \<and> (\<forall>j<k. occ ! j \<or> \<not> anchorScore (anchors ! j) t < Infinity)
   | (Some i, bs) \<Rightarrow> bs = anchorScore (anchors ! i) t \<and> leastBest anchors occ t k i"
proof (induction k)
  case 0
  then show ?case by simp
next
  case (Suc k)
  let ?s = "\<lambda>j. anchorScore (anchors ! j) t"
  obtain bi bs where st: "fold (considerAnchor anchors occ t) [0..<k] (None, Infinity) = (bi, bs)"
    by (cases "fold (considerAnchor anchors occ t) [0..<k] (None, Infinity)")
  have step: "fold (considerAnchor anchors occ t) [0..<Suc k] (None, Infinity)
      = considerAnchor anchors occ t k (bi, bs)"
    using st by simp
  show ?case
  proof (cases bi)
    case None
    with Suc st have bs: "bs = Infinity" and all: "\<forall>j<k. occ ! j \<or> \<not> ?s j < Infinity" by auto
    show ?thesis
    proof (cases "\<not> occ ! k \<and> ?s k < Infinity")
      case True
      have "leastBest anchors occ t (Suc k) k"
        unfolding leastBest_def using all True
        by (auto simp: less_Suc_eq le_number_refl)
      then show ?thesis
        unfolding step using None bs True by (simp add: considerAnchor_def Let_def)
    next
      case False
      then have "\<forall>j<Suc k. occ ! j \<or> \<not> ?s j < Infinity"
        using all by (auto simp: less_Suc_eq)
      then show ?thesis
        unfolding step using None bs False by (auto simp: considerAnchor_def Let_def)
    qed
  next
    case (Some i)
    with Suc st have bs: "bs = ?s i" and lb: "leastBest anchors occ t k i"
      by auto
    from lb have fin: "?s i < Infinity" and ik: "i < k" and free: "\<not> occ ! i"
      and least: "\<And>j. j < k \<Longrightarrow> \<not> occ ! j \<Longrightarrow> ?s j < Infinity \<Longrightarrow>
        ?s i \<le> ?s j \<and> (j < i \<longrightarrow> ?s i < ?s j)"
      by (auto simp: leastBest_def)
    show ?thesis
    proof (cases "\<not> occ ! k \<and> ?s k < ?s i")
      case True
      then have finK: "?s k < Infinity"
        using fin by (blast intro: less_number_trans)
      have "?s k \<le> ?s j \<and> (j < k \<longrightarrow> ?s k < ?s j)"
        if "j < Suc k" "\<not> occ ! j" "?s j < Infinity" for j
      proof (cases "j = k")
        case True
        then show ?thesis using finK by (simp add: le_number_refl)
      next
        case False
        with that have "j < k" by simp
        from least [OF this that(2,3)] have "?s i \<le> ?s j" by simp
        with True have "?s k < ?s j" by (blast intro: less_le_number_trans)
        then show ?thesis by (simp add: less_imp_le_number)
      qed
      then have "leastBest anchors occ t (Suc k) k"
        unfolding leastBest_def using True finK by simp
      then show ?thesis
        unfolding step using Some bs True by (simp add: considerAnchor_def Let_def)
    next
      case False
      have "?s i \<le> ?s j \<and> (j < i \<longrightarrow> ?s i < ?s j)"
        if "j < Suc k" "\<not> occ ! j" "?s j < Infinity" for j
      proof (cases "j = k")
        case True
        with that False have "\<not> ?s k < ?s i" by simp
        with that(3) fin True have "?s i \<le> ?s j"
          by (simp add: not_less_number)
        then show ?thesis using True ik by simp
      next
        case False
        with that have "j < k" by simp
        from least [OF this that(2,3)] show ?thesis .
      qed
      then have "leastBest anchors occ t (Suc k) i"
        unfolding leastBest_def using fin ik free by simp
      then show ?thesis
        unfolding step using Some bs False by (auto simp: considerAnchor_def Let_def)
    qed
  qed
qed

lemma bestAnchor_None:
  "bestAnchor anchors occ t = None \<Longrightarrow> j < length anchors \<Longrightarrow>
   occ ! j \<or> \<not> anchorScore (anchors ! j) t < Infinity"
  using considerAnchor_fold [where anchors = anchors and occ = occ and t = t and k = "length anchors"]
  by (auto simp: bestAnchor_def split: prod.splits option.splits)

lemma bestAnchor_Some:
  "bestAnchor anchors occ t = Some i \<Longrightarrow> leastBest anchors occ t (length anchors) i"
  using considerAnchor_fold [where anchors = anchors and occ = occ and t = t and k = "length anchors"]
  by (auto simp: bestAnchor_def split: prod.splits option.splits)

lemma placeToken_keeps_occupied:
  assumes "snd st ! i" "length (snd st) = length anchors" "length (fst st) = length anchors"
  shows "fst (placeToken anchors t st) ! i = fst st ! i \<and> snd (placeToken anchors t st) ! i"
proof (cases "bestAnchor anchors (snd st) t")
  case None
  then show ?thesis using assms by (simp add: placeToken_def Let_def)
next
  case (Some b)
  from bestAnchor_Some [OF Some] have "b < length anchors" "\<not> snd st ! b"
    by (auto simp: leastBest_def)
  with assms have "b \<noteq> i" by auto
  then show ?thesis
    using Some assms \<open>b < length anchors\<close>
    by (cases "i < length anchors") (auto simp: placeToken_def Let_def nth_list_update)
qed

lemma fold_placeToken_keeps_occupied:
  "snd st ! i \<Longrightarrow> length (snd st) = length anchors \<Longrightarrow> length (fst st) = length anchors \<Longrightarrow>
   fst (fold (placeToken anchors) tokens st) ! i = fst st ! i"
proof (induction tokens arbitrary: st)
  case Nil
  then show ?case by simp
next
  case (Cons t ts)
  have "fst (fold (placeToken anchors) ts (placeToken anchors t st)) ! i
      = fst (placeToken anchors t st) ! i"
    using Cons.prems placeToken_keeps_occupied [of st i anchors t] length_placeToken [of anchors t st]
    by (intro Cons.IH) auto
  then show ?case
    using placeToken_keeps_occupied [of st i anchors t] Cons.prems by simp
qed

lemma overlapsHorizontally_test:
  "overlapsHorizontally a t \<longleftrightarrow>
     (a_start a - Fin 14 \<le> t_x t \<and> t_x t \<le> a_end a + Fin 14) \<or>
     (a_start a - Fin 14 \<le> t_x t + t_width t \<and> t_x t + t_width t \<le> a_end a + Fin 14) \<or>
     (t_x t \<le> a_start a \<and> a_end a \<le> t_x t + t_width t)"
  by (simp add: overlapsHorizontally_def COLUMN_TOLERANCE_def Let_def)

lemma anchorScore_formula:
  "anchorScore a t =
     \<bar>a_center a - (t_x t + t_width t / Fin 2)\<bar>
     + (if truthy (a_height a) \<and> Fin 5 < \<bar>a_height a - t_height t\<bar>
        then \<bar>a_height a - t_height t\<bar> else Fin 0)
     + (if overlapsHorizontally a t then Fin 0 else Fin 25)"
  by (simp add: anchorScore_def HEIGHT_TOLERANCE_def Let_def)

lemma placeToken_step:
  assumes "normalizeTokenText (t_text t) \<noteq> []"
  shows "case bestAnchor anchors occupied t of
      None \<Rightarrow> (\<forall>j<length anchors. occupied ! j \<or> \<not> anchorScore (anchors ! j) t < Infinity) \<and>
        placeToken anchors t (result, occupied) = (result, occupied)
    | Some i \<Rightarrow> leastBest anchors occupied t (length anchors) i \<and>
        placeToken anchors t (result, occupied) =
          (result[i := normalizeTokenText (t_text t)], occupied[i := True])"
  using assms bestAnchor_None [of anchors occupied t] bestAnchor_Some [of anchors occupied t]
  by (auto simp: placeToken_def Let_def split: option.splits)

text \<open>
  The score is the code's, rounded at each step. With the anchor centres at the doubles
  nearest to 0.61 and 0.11 and the token at the double nearest to 0.36, both distances
  round to 0.25 (the second is smaller before rounding): the scores tie, and the token
  goes to the first anchor.
\<close>

lemma score_is_rounded:
  "toDouble 0.61 = Fin (5494391545392005 / 2 ^ 53) \<and>
   toDouble 0.11 = Fin (7926335344172073 / 2 ^ 56) \<and>
   toDouble 0.36 = Fin (3242591731706757 / 2 ^ 53) \<and>
   \<bar>3242591731706757 / 2 ^ 53 - 7926335344172073 / 2 ^ 56 :: real\<bar>
     < \<bar>5494391545392005 / 2 ^ 53 - 3242591731706757 / 2 ^ 53\<bar> \<and>
   anchorScore
     \<lparr>a_start = Fin (5494391545392005 / 2 ^ 53), a_end = Fin (5494391545392005 / 2 ^ 53),
      a_center = Fin (5494391545392005 / 2 ^ 53), a_height = Fin 0\<rparr>
     \<lparr>t_text = ''5'', t_x = Fin (3242591731706757 / 2 ^ 53), t_width = Fin 0, t_height = Fin 8\<rparr>
     = Fin (1 / 4) \<and>
   anchorScore
     \<lparr>a_start = Fin (7926335344172073 / 2 ^ 56), a_end = Fin (7926335344172073 / 2 ^ 56),
      a_center = Fin (7926335344172073 / 2 ^ 56), a_height = Fin 0\<rparr>
     \<lparr>t_text = ''5'', t_x = Fin (3242591731706757 / 2 ^ 53), t_width = Fin 0, t_height = Fin 8\<rparr>
     = Fin (1 / 4) \<and>
   mapTokensToColumns
     [\<lparr>t_text = ''5'', t_x = Fin (3242591731706757 / 2 ^ 53), t_width = Fin 0, t_height = Fin 8\<rparr>]
     (Some [\<lparr>a_start = Fin (5494391545392005 / 2 ^ 53), a_end = Fin (5494391545392005 / 2 ^ 53),
             a_center = Fin (5494391545392005 / 2 ^ 53), a_height = Fin 0\<rparr>,
            \<lparr>a_start = Fin (7926335344172073 / 2 ^ 56), a_end = Fin (7926335344172073 / 2 ^ 56),
             a_center = Fin (7926335344172073 / 2 ^ 56), a_height = Fin 0\<rparr>])
     [''1'', ''Vote''] = [''5'', ''.'']"
  by (simp add: mapTokensToColumns_def effectiveLabels_def placeToken_def bestAnchor_def
      considerAnchor_def anchorScore_def overlapsHorizontally_def
      normalizeTokenText_def trim_def trimStart_def trimEnd_def isSpace_def
      COLUMN_TOLERANCE_def HEIGHT_TOLERANCE_def EMPTY_VALUE_PLACEHOLDER_def upt_rec double_eval)

text \<open>
  C4, as the claim states it, fails: an anchor of height 0 takes no height penalty,
  whatever the token's height. Here the token (height 20) goes to the first anchor
  (height 0), although by the claim's score the second anchor is the nearer one.
\<close>

theorem C4_height_penalty_counterexample:
  "mapTokensToColumns
     [\<lparr>t_text = ''5'', t_x = Fin 0.5, t_width = Fin 2, t_height = Fin 20\<rparr>]
     (Some [\<lparr>a_start = Fin 0, a_end = Fin 2, a_center = Fin 1, a_height = Fin 0\<rparr>,
            \<lparr>a_start = Fin 2, a_end = Fin 4, a_center = Fin 3, a_height = Fin 20\<rparr>])
     [''1'', ''Vote''] = [''5'', ''.''] \<and>
   specScore \<lparr>a_start = Fin 2, a_end = Fin 4, a_center = Fin 3, a_height = Fin 20\<rparr>
       \<lparr>t_text = ''5'', t_x = Fin 0.5, t_width = Fin 2, t_height = Fin 20\<rparr>
     < specScore \<lparr>a_start = Fin 0, a_end = Fin 2, a_center = Fin 1, a_height = Fin 0\<rparr>
       \<lparr>t_text = ''5'', t_x = Fin 0.5, t_width = Fin 2, t_height = Fin 20\<rparr>"
  by (simp add: mapTokensToColumns_def effectiveLabels_def placeToken_def bestAnchor_def
      considerAnchor_def anchorScore_def specScore_def overlapsHorizontally_def
      normalizeTokenText_def trim_def trimStart_def trimEnd_def isSpace_def
      COLUMN_TOLERANCE_def HEIGHT_TOLERANCE_def EMPTY_VALUE_PLACEHOLDER_def upt_rec double_eval)

text \<open>
  C4 (amended): when the anchors are as many as the labels, \<open>mapTokensToColumns\<close> runs
  the tokens in their order over the state (cells, occupied flags), starting from all
  placeholders and no anchor occupied. A token whose text is empty after stripping
  parentheses (and trimming) changes nothing. Any other token goes to the free anchor of
  lowest score among those whose score is below \<^verbatim>\<open>Infinity\<close>, the first such on a tie, which
  is then marked occupied; when there is no such anchor the token is dropped. The score
  is computed in the arithmetic of doubles, each step rounded: it is
  \<open>|anchor.center - token.center|\<close> plus the height penalty plus the overlap penalty, where
  the token's centre is \<open>x + width / 2\<close>, the height penalty is the absolute height
  difference when the anchor's height is truthy (not 0) and the difference exceeds 5
  (else 0), and the overlap penalty is 0 when the token's start or its end \<open>x + width\<close> lies
  from \<open>anchor.start - 14\<close> to \<open>anchor.end + 14\<close> or the token spans the anchor from its start
  to its end (else 25). An occupied anchor's cell is never written again, so each anchor
  receives at most one token.
\<close>

theorem C4_anchor_assignment:
  assumes "length anchors = length (effectiveLabels labels)"
    and "length occupied = length anchors" and "length result = length anchors"
  shows "mapTokensToColumns tokens (Some anchors) labels =
       fst (fold (placeToken anchors) tokens
              (replicate (length anchors) ''.'', replicate (length anchors) False)) \<and>
     anchorScore a t =
       \<bar>a_center a - (t_x t + t_width t / Fin 2)\<bar>
       + (if truthy (a_height a) \<and> Fin 5 < \<bar>a_height a - t_height t\<bar>
          then \<bar>a_height a - t_height t\<bar> else Fin 0)
       + (if overlapsHorizontally a t then Fin 0 else Fin 25) \<and>
     (overlapsHorizontally a t \<longleftrightarrow>
        (a_start a - Fin 14 \<le> t_x t \<and> t_x t \<le> a_end a + Fin 14) \<or>
        (a_start a - Fin 14 \<le> t_x t + t_width t \<and> t_x t + t_width t \<le> a_end a + Fin 14) \<or>
        (t_x t \<le> a_start a \<and> a_end a \<le> t_x t + t_width t)) \<and>
     (normalizeTokenText (t_text t) = [] \<longrightarrow>
        placeToken anchors t (result, occupied) = (result, occupied)) \<and>
     (normalizeTokenText (t_text t) \<noteq> [] \<longrightarrow>
        (case bestAnchor anchors occupied t of
           None \<Rightarrow>
             (\<forall>j<length anchors. occupied ! j \<or> \<not> anchorScore (anchors ! j) t < Infinity) \<and>
             placeToken anchors t (result, occupied) = (result, occupied)
         | Some i \<Rightarrow>
             i < length anchors \<and> \<not> occupied ! i \<and> anchorScore (anchors ! i) t < Infinity \<and>
             (\<forall>j<length anchors. \<not> occupied ! j \<and> anchorScore (anchors ! j) t < Infinity \<longrightarrow>
                anchorScore (anchors ! i) t \<le> anchorScore (anchors ! j) t \<and>
                (j < i \<longrightarrow> anchorScore (anchors ! i) t < anchorScore (anchors ! j) t)) \<and>
             placeToken anchors t (result, occupied) =
               (result[i := normalizeTokenText (t_text t)], occupied[i := True]))) \<and>
     (\<forall>i. occupied ! i \<longrightarrow>
        fst (fold (placeToken anchors) tokens (result, occupied)) ! i = result ! i)"
proof -
  have run: "mapTokensToColumns tokens (Some anchors) labels =
       fst (fold (placeToken anchors) tokens
              (replicate (length anchors) ''.'', replicate (length anchors) False))"
    using assms(1) by (simp add: mapTokensToColumns_def Let_def EMPTY_VALUE_PLACEHOLDER_def)
  have skip: "normalizeTokenText (t_text t) = [] \<longrightarrow>
        placeToken anchors t (result, occupied) = (result, occupied)"
    by (simp add: placeToken_def)
  have step: "normalizeTokenText (t_text t) \<noteq> [] \<longrightarrow>
        (case bestAnchor anchors occupied t of
           None \<Rightarrow>
             (\<forall>j<length anchors. occupied ! j \<or> \<not> anchorScore (anchors ! j) t < Infinity) \<and>
             placeToken anchors t (result, occupied) = (result, occupied)
         | Some i \<Rightarrow>
             i < length anchors \<and> \<not> occupied ! i \<and> anchorScore (anchors ! i) t < Infinity \<and>
             (\<forall>j<length anchors. \<not> occupied ! j \<and> anchorScore (anchors ! j) t < Infinity \<longrightarrow>
                anchorScore (anchors ! i) t \<le> anchorScore (anchors ! j) t \<and>
                (j < i \<longrightarrow> anchorScore (anchors ! i) t < anchorScore (anchors ! j) t)) \<and>
             placeToken anchors t (result, occupied) =
               (result[i := normalizeTokenText (t_text t)], occupied[i := True]))"
    using placeToken_step [of t anchors occupied result]
    by (auto simp: leastBest_def split: option.splits)
  have keep: "\<forall>i. occupied ! i \<longrightarrow>
        fst (fold (placeToken anchors) tokens (result, occupied)) ! i = result ! i"
    using fold_placeToken_keeps_occupied [of "(result, occupied)" _ anchors tokens] assms(2,3)
    by simp
  show ?thesis
    using run anchorScore_formula [of a t] overlapsHorizontally_test [of a t] skip step keep
    by blast
qed

theorem C4_anchor_assignment_witness:
  "placeToken
     [\<lparr>a_start = Fin 0, a_end = Fin 2, a_center = Fin 1, a_height = Fin 0\<rparr>,
      \<lparr>a_start = Fin 2, a_end = Fin 4, a_center = Fin 3, a_height = Fin 20\<rparr>]
     \<lparr>t_text = ''(7)'', t_x = Fin 2.5, t_width = Fin 1, t_height = Fin 20\<rparr>
     ([''.'', ''.''], [False, False]) = ([''.'', ''7''], [False, True]) \<and>
   fst (fold (placeToken
       [\<lparr>a_start = Fin 0, a_end = Fin 2, a_center = Fin 1, a_height = Fin 0\<rparr>,
        \<lparr>a_start = Fin 2, a_end = Fin 4, a_center = Fin 3, a_height = Fin 20\<rparr>])
     [\<lparr>t_text = ''8'', t_x = Fin 2.5, t_width = Fin 1, t_height = Fin 20\<rparr>]
     ([''.'', ''7''], [False, True])) ! 1 = ''7''"
proof -
  let ?A = "[\<lparr>a_start = Fin 0, a_end = Fin 2, a_center = Fin 1, a_height = Fin 0\<rparr>,
      \<lparr>a_start = Fin 2, a_end = Fin 4, a_center = Fin 3, a_height = Fin 20\<rparr>]"
  let ?t = "\<lparr>t_text = ''(7)'', t_x = Fin 2.5, t_width = Fin 1, t_height = Fin 20\<rparr>"
  have n: "normalizeTokenText (t_text ?t) = ''7''"
    by (simp add: normalizeTokenText_def trim_def trimStart_def trimEnd_def isSpace_def)
  have b: "bestAnchor ?A [False, False] ?t = Some 1"
    by (simp add: bestAnchor_def considerAnchor_def anchorScore_def overlapsHorizontally_def
        COLUMN_TOLERANCE_def HEIGHT_TOLERANCE_def upt_rec double_eval)
  have l: "length ?A = length (effectiveLabels [''1'', ''Vote''])"
    by (simp add: effectiveLabels_def)
  have first: "placeToken ?A ?t ([''.'', ''.''], [False, False]) = ([''.'', ''7''], [False, True])"
    using C4_anchor_assignment [OF l, of "[False, False]" "[''.'', ''.'']" "[]" "hd ?A" ?t] n b
    by simp
  have second: "fst (fold (placeToken ?A)
     [\<lparr>t_text = ''8'', t_x = Fin 2.5, t_width = Fin 1, t_height = Fin 20\<rparr>]
     ([''.'', ''7''], [False, True])) ! 1 = ''7''"
    using C4_anchor_assignment [OF l, of "[False, True]" "[''.'', ''7'']"
        "[\<lparr>t_text = ''8'', t_x = Fin 2.5, t_width = Fin 1, t_height = Fin 20\<rparr>]" "hd ?A" ?t]
    by simp
  show ?thesis
    using first second by blast
qed

text \<open>
  C5, as the claim states it, fails: with an empty label list the default labels are
  used, and the result has 21 cells.
\<close>

theorem C5_empty_labels_counterexample:
  "length (mapTokensToColumns [] None []) \<noteq> length ([] :: string list)"
  by (simp add: length_mapTokensToColumns effectiveLabels_def length_buildTableColumnLabels
      clampedSetCount_def)

text \<open>
  C5 (amended): for every anchors argument (null, of another length, or matching) and
  every token list, the result of \<open>mapTokensToColumns\<close> is as long as \<open>columnLabels\<close> when
  that list is not empty, and as long as the 21 default labels when it is; every cell is
  the non-empty normalised text of one of the tokens or exactly the placeholder \<open>"."\<close>.
\<close>

theorem C5_mapTokensToColumns_total:
  "(labels \<noteq> [] \<longrightarrow> length (mapTokensToColumns tokens anchors labels) = length labels) \<and>
   (labels = [] \<longrightarrow> length (mapTokensToColumns tokens anchors labels) = 21) \<and>
   (\<forall>i<length (mapTokensToColumns tokens anchors labels).
      mapTokensToColumns tokens anchors labels ! i = ''.'' \<or>
      (mapTokensToColumns tokens anchors labels ! i \<noteq> [] \<and>
       (\<exists>t\<in>set tokens. mapTokensToColumns tokens anchors labels ! i = normalizeTokenText (t_text t))))"
proof -
  have "length (mapTokensToColumns tokens anchors labels) = length (effectiveLabels labels)"
    by (rule length_mapTokensToColumns)
  moreover have "length (buildTableColumnLabels None) = 21"
    by (simp add: length_buildTableColumnLabels clampedSetCount_def)
  moreover have "\<forall>i<length (mapTokensToColumns tokens anchors labels).
      cellFromTokens tokens (mapTokensToColumns tokens anchors labels ! i)"
    using mapTokensToColumns_cells [of tokens anchors labels] by (simp add: list_all_length)
  ultimately show ?thesis
    by (auto simp: effectiveLabels_def cellFromTokens_def EMPTY_VALUE_PLACEHOLDER_def)
qed

theorem C5_mapTokensToColumns_total_witness:
  "length (mapTokensToColumns [\<lparr>t_text = ''(7)'', t_x = Fin 2.5, t_width = Fin 1, t_height = Fin 20\<rparr>]
     (Some [\<lparr>a_start = Fin 0, a_end = Fin 2, a_center = Fin 1, a_height = Fin 0\<rparr>]) [''1'', ''Vote'']) = 2 \<and>
   length (mapTokensToColumns [\<lparr>t_text = ''(7)'', t_x = Fin 2.5, t_width = Fin 1, t_height = Fin 20\<rparr>]
     None []) = 21"
  using C5_mapTokensToColumns_total [of "[''1'', ''Vote'']"
      "[\<lparr>t_text = ''(7)'', t_x = Fin 2.5, t_width = Fin 1, t_height = Fin 20\<rparr>]"
      "Some [\<lparr>a_start = Fin 0, a_end = Fin 2, a_center = Fin 1, a_height = Fin 0\<rparr>]"]
    C5_mapTokensToColumns_total [of "[]"
      "[\<lparr>t_text = ''(7)'', t_x = Fin 2.5, t_width = Fin 1, t_height = Fin 20\<rparr>]" None]
  by simp

section \<open>Grouping players by team (C10)\<close>



lemma pushTo_eq: "(\<lambda>(k', ps). if k' = k then (k', ps @ [p]) else (k', ps)) = pushTo k p"
  by (auto simp: pushTo_def fun_eq_iff)

lemma fst_pushTo [simp]: "fst (pushTo k p e) = fst e"
  by (simp add: pushTo_def)

lemma map_fst_pushTo [simp]: "map fst (map (pushTo k p) acc) = map fst acc"
  by (induction acc) simp_all

lemma pushTo_absent: "k \<notin> fst ` set acc \<Longrightarrow> map (pushTo k p) acc = acc"
  by (induction acc) (auto simp: pushTo_def)

lemma concat_map_pushTo:
  "distinct (map fst acc) \<Longrightarrow> k \<in> fst ` set acc \<Longrightarrow>
   mset (concat (map snd (map (pushTo k p) acc))) = add_mset p (mset (concat (map snd acc)))"
proof (induction acc)
  case Nil
  then show ?case by simp
next
  case (Cons e acc)
  show ?case
  proof (cases "fst e = k")
    case True
    then have "k \<notin> fst ` set acc" using Cons.prems(1) by auto
    then show ?thesis using True by (simp add: pushTo_absent) (simp add: pushTo_def)
  next
    case False
    then have "k \<in> fst ` set acc" using Cons.prems(2) by auto
    then show ?thesis using Cons False by (simp add: pushTo_def)
  qed
qed

lemma pushTo_teams:
  assumes "\<forall>e\<in>set acc. \<forall>q\<in>set (snd e). teamNameOf q = fst e" "teamNameOf p = k"
  shows "\<forall>e\<in>set (map (pushTo k p) acc). \<forall>q\<in>set (snd e). teamNameOf q = fst e"
  using assms by (auto simp: pushTo_def)

lemma addPlayer_ok:
  assumes "accInv seen acc" "teamNameOf p \<notin> set objectPrototypeKeys"
  shows "\<exists>acc'. addPlayer p acc = Inr acc' \<and> accInv (seen @ [p]) acc'"
proof (cases "map_of acc (teamNameOf p)")
  case None
  then have "teamNameOf p \<notin> fst ` set acc"
    by (simp add: map_of_eq_None_iff)
  then have "accInv (seen @ [p]) (acc @ [(teamNameOf p, [p])])"
    using assms(1) by (simp add: accInv_def)
  then show ?thesis
    using assms(2) None by (simp add: addPlayer_def Let_def)
next
  case (Some v)
  then have mem: "teamNameOf p \<in> fst ` set acc"
    by (metis map_of_eq_None_iff option.distinct(1))
  have d: "distinct (map fst acc)"
    and m: "mset (concat (map snd acc)) = mset seen"
    and t: "\<forall>e\<in>set acc. \<forall>q\<in>set (snd e). teamNameOf q = fst e"
    using assms(1) by (simp_all add: accInv_def)
  have "distinct (map fst (map (pushTo (teamNameOf p) p) acc))"
    using d by (simp only: map_fst_pushTo)
  moreover have "mset (concat (map snd (map (pushTo (teamNameOf p) p) acc))) = mset (seen @ [p])"
    using concat_map_pushTo [OF d mem, of p] m by simp
  moreover have "\<forall>e\<in>set (map (pushTo (teamNameOf p) p) acc). \<forall>q\<in>set (snd e). teamNameOf q = fst e"
    using pushTo_teams [OF t refl] .
  ultimately have "accInv (seen @ [p]) (map (pushTo (teamNameOf p) p) acc)"
    unfolding accInv_def by blast
  then show ?thesis
    using Some by (simp add: addPlayer_def Let_def pushTo_eq)
qed

lemma reducePlayers_ok:
  "accInv seen acc \<Longrightarrow> \<forall>p\<in>set players. teamNameOf p \<notin> set objectPrototypeKeys \<Longrightarrow>
   \<exists>acc'. reducePlayers players acc = Inr acc' \<and> accInv (seen @ players) acc'"
proof (induction players arbitrary: seen acc)
  case Nil
  then show ?case by simp
next
  case (Cons p ps)
  then obtain acc1 where a1: "addPlayer p acc = Inr acc1" "accInv (seen @ [p]) acc1"
    using addPlayer_ok [of seen acc p] by auto
  from Cons.IH [OF a1(2)] Cons.prems(2) a1(1) show ?case by auto
qed

lemma mset_objectEntries: "mset (objectEntries obj) = mset obj"
  by (simp add: objectEntries_def)


lemma mset_concat_perm:
  assumes "mset xs = mset ys"
  shows "mset (concat (map f xs)) = mset (concat (map f ys))"
proof -
  have "mset (concat (map f zs)) = sum_mset (image_mset (\<lambda>z. mset (f z)) (mset zs))" for zs
    by (induction zs) simp_all
  then show ?thesis using assms by simp
qed

lemma distinct_fst_objectEntries:
  assumes "distinct (map fst obj)"
  shows "distinct (map fst (objectEntries obj))"
proof -
  have "mset (map fst (objectEntries obj)) = mset (map fst obj)"
    using mset_objectEntries [of obj] by (metis mset_map)
  then show ?thesis
    using assms by (metis mset_eq_imp_distinct_iff)
qed

lemma mkGroup_eq:
  "(\<lambda>(team, teamPlayers). \<lparr>g_team = team, g_players = sort_key p_number teamPlayers\<rparr>) = mkGroup"
  by (auto simp: mkGroup_def fun_eq_iff)

lemma groupPlayersByTeam_partition:
  assumes "\<forall>p\<in>set players. teamNameOf p \<notin> set objectPrototypeKeys"
  shows "\<exists>groups. groupPlayersByTeam players = Inr groups \<and>
     mset (concat (map g_players groups)) = mset players \<and>
     distinct (map g_team groups) \<and>
     (\<forall>g\<in>set groups. sorted (map p_number (g_players g)) \<and>
        (\<forall>p\<in>set (g_players g). teamNameOf p = g_team g))"
proof (cases "players = []")
  case True
  then show ?thesis by (simp add: groupPlayersByTeam_def)
next
  case False
  have "accInv [] []" by (simp add: accInv_def)
  from reducePlayers_ok [OF this assms]
  obtain acc where acc: "reducePlayers players [] = Inr acc" "accInv players acc"
    by auto
  let ?groups = "map mkGroup (objectEntries acc)"
  have res: "groupPlayersByTeam players = Inr ?groups"
    using False acc(1) by (simp add: groupPlayersByTeam_def mkGroup_eq)
  have d: "distinct (map fst acc)"
    and m: "mset (concat (map snd acc)) = mset players"
    and t: "\<forall>e\<in>set acc. \<forall>q\<in>set (snd e). teamNameOf q = fst e"
    using acc(2) by (simp_all add: accInv_def)
  have "mset (concat (map g_players (map mkGroup es))) = mset (concat (map snd es))" for es
    by (induction es) (simp_all add: mkGroup_def)
  then have "mset (concat (map g_players ?groups)) = mset (concat (map snd (objectEntries acc)))"
    by blast
  also have "\<dots> = mset (concat (map snd acc))"
    using mset_concat_perm [OF mset_objectEntries, of snd acc] .
  finally have part: "mset (concat (map g_players ?groups)) = mset players"
    using m by simp
  have "g_team \<circ> mkGroup = fst"
    by (simp add: mkGroup_def fun_eq_iff)
  then have dist: "distinct (map g_team ?groups)"
    using distinct_fst_objectEntries [OF d] by simp
  have "set (objectEntries acc) = set acc"
    using mset_objectEntries [of acc] by (metis set_mset_mset)
  then have grp: "\<forall>g\<in>set ?groups. sorted (map p_number (g_players g)) \<and>
        (\<forall>p\<in>set (g_players g). teamNameOf p = g_team g)"
    using t by (auto simp: mkGroup_def)
  show ?thesis
    using res part dist grp by blast
qed

text \<open>
  C10: every player is placed in exactly one team group, a player with a missing or empty
  team under \<open>"Equipe"\<close>, and no error is raised. The lemma above proves it for every
  player list in which no team is named like a property that the accumulator object
  inherits. For such a name the source raises: the lookup finds the inherited function,
  which is truthy and has no \<^verbatim>\<open>push\<close>.
\<close>

theorem C10_inherited_key_raises:
  "groupPlayersByTeam [\<lparr>p_team = Some ''constructor'', p_number = 1, p_name = ''Ana''\<rparr>]
     = Inl TypeError"
  by (simp add: groupPlayersByTeam_def addPlayer_def teamNameOf_def objectPrototypeKeys_def Let_def)

lemma groupPlayersByTeam_example:
  "groupPlayersByTeam
    [\<lparr>p_team = Some ''B'', p_number = 9, p_name = ''x''\<rparr>,
     \<lparr>p_team = Some ''12'', p_number = 4, p_name = ''u''\<rparr>,
     \<lparr>p_team = None, p_number = 9, p_name = ''y''\<rparr>,
     \<lparr>p_team = Some ''B'', p_number = 3, p_name = ''z''\<rparr>,
     \<lparr>p_team = Some [], p_number = 3, p_name = ''w''\<rparr>,
     \<lparr>p_team = Some ''7'', p_number = 3, p_name = ''v''\<rparr>]
   = Inr [\<lparr>g_team = ''7'', g_players = [\<lparr>p_team = Some ''7'', p_number = 3, p_name = ''v''\<rparr>]\<rparr>,
          \<lparr>g_team = ''12'', g_players = [\<lparr>p_team = Some ''12'', p_number = 4, p_name = ''u''\<rparr>]\<rparr>,
          \<lparr>g_team = ''B'', g_players = [\<lparr>p_team = Some ''B'', p_number = 3, p_name = ''z''\<rparr>,
                                           \<lparr>p_team = Some ''B'', p_number = 9, p_name = ''x''\<rparr>]\<rparr>,
          \<lparr>g_team = ''Equipe'', g_players = [\<lparr>p_team = Some [], p_number = 3, p_name = ''w''\<rparr>,
                                                \<lparr>p_team = None, p_number = 9, p_name = ''y''\<rparr>]\<rparr>]"
  by (simp add: groupPlayersByTeam_def addPlayer_def teamNameOf_def objectPrototypeKeys_def
      objectEntries_def isArrayIndex_def isDigit_def digitsValue_def digitValue_def Let_def)

section \<open>Line clustering (C1)\<close>


lemma near_sym: "near tol a b \<Longrightarrow> near tol b a"
  by (simp add: near_def abs_minus_number_commute [of "Fin a" "Fin b"])

lemma near_refl: "0 \<le> tol \<Longrightarrow> near tol a a"
  by (simp add: near_def minus_number_self)

lemma findBucket_None: "findBucket ys y tol = None \<longleftrightarrow> (\<forall>b\<in>set ys. \<not> near tol b y)"
  by (induction ys) (auto simp: near_def)

lemma findBucket_Some:
  "findBucket ys y tol = Some k \<Longrightarrow> k < length ys \<and> near tol (ys ! k) y"
  by (induction ys arbitrary: k) (auto simp: near_def split: if_splits)

lemma nearTransitive_y:
  assumes "nearTransitive tol items" "a \<in> i_y ` set items" "b \<in> i_y ` set items"
    "c \<in> i_y ` set items" "near tol a b" "near tol b c"
  shows "near tol a c"
  using assms unfolding nearTransitive_def by blast

lemma placeItem_inv:
  assumes inv: "bucketInv tol seen st" and tr: "nearTransitive tol (seen @ [it])"
    and tol: "0 \<le> tol"
  shows "bucketInv tol (seen @ [it]) (placeItem tol it st)"
proof -
  obtain ys rows where st: "st = (ys, rows)" by (cases st)
  let ?Y = "i_y ` set (seen @ [it])"
  have rows: "rows = map (\<lambda>b. filter (\<lambda>it. near tol b (i_y it)) seen) ys"
    and sub: "set ys \<subseteq> i_y ` set seen"
    and apart: "\<forall>i<length ys. \<forall>j<length ys. i \<noteq> j \<longrightarrow> \<not> near tol (ys ! i) (ys ! j)"
    and cover: "\<forall>s\<in>set seen. \<exists>b\<in>set ys. near tol b (i_y s)"
    using inv by (simp_all add: bucketInv_def st)
  have inY: "b \<in> ?Y" if "b \<in> set ys" for b
    using that sub by auto
  have itY: "i_y it \<in> ?Y" by simp
  show ?thesis
  proof (cases "findBucket ys (i_y it) tol")
    case None
    then have far: "\<forall>b\<in>set ys. \<not> near tol b (i_y it)"
      by (simp add: findBucket_None)
    have res: "placeItem tol it st = (ys @ [i_y it], rows @ [[it]])"
      using None by (simp add: placeItem_def st)
    have nobody: "\<not> near tol (i_y it) (i_y s)" if "s \<in> set seen" for s
    proof
      assume n: "near tol (i_y it) (i_y s)"
      from cover that obtain b where b: "b \<in> set ys" "near tol b (i_y s)" by blast
      have "near tol b (i_y it)"
        using nearTransitive_y [OF tr inY [OF b(1)] _ itY b(2) near_sym [OF n]] that by simp
      with far b(1) show False by blast
    qed
    have r1: "map (\<lambda>b. filter (\<lambda>it. near tol b (i_y it)) (seen @ [it])) ys = rows"
      using far by (simp add: rows)
    have r2: "filter (\<lambda>s. near tol (i_y it) (i_y s)) (seen @ [it]) = [it]"
      using nobody tol by (simp add: near_refl filter_empty_conv)
    have a2: "\<forall>i<length (ys @ [i_y it]). \<forall>j<length (ys @ [i_y it]). i \<noteq> j \<longrightarrow>
        \<not> near tol ((ys @ [i_y it]) ! i) ((ys @ [i_y it]) ! j)"
      using apart far by (auto simp: nth_append less_Suc_eq dest: near_sym)
    have c2: "\<forall>s\<in>set (seen @ [it]). \<exists>b\<in>set (ys @ [i_y it]). near tol b (i_y s)"
      using cover tol by (auto simp: near_refl)
    show ?thesis
      unfolding bucketInv_def res using r1 r2 sub a2 c2 by auto
  next
    case (Some k)
    then have k: "k < length ys" "near tol (ys ! k) (i_y it)"
      using findBucket_Some by blast+
    have res: "placeItem tol it st = (ys, rows[k := rows ! k @ [it]])"
      using Some by (simp add: placeItem_def st)
    have other: "\<not> near tol (ys ! i) (i_y it)" if "i < length ys" "i \<noteq> k" for i
    proof
      assume n: "near tol (ys ! i) (i_y it)"
      have "near tol (ys ! i) (ys ! k)"
        using nearTransitive_y [OF tr inY itY inY n near_sym [OF k(2)]] that(1) k(1) by simp
      with apart that k(1) show False by blast
    qed
    have r: "rows[k := rows ! k @ [it]] =
        map (\<lambda>b. filter (\<lambda>it. near tol b (i_y it)) (seen @ [it])) ys"
    proof (rule nth_equalityI)
      show "length (rows[k := rows ! k @ [it]]) =
          length (map (\<lambda>b. filter (\<lambda>it. near tol b (i_y it)) (seen @ [it])) ys)"
        by (simp add: rows)
    next
      fix i assume "i < length (rows[k := rows ! k @ [it]])"
      then have i: "i < length ys" by (simp add: rows)
      show "rows[k := rows ! k @ [it]] ! i =
          map (\<lambda>b. filter (\<lambda>it. near tol b (i_y it)) (seen @ [it])) ys ! i"
        using i k other [of i] by (cases "i = k") (simp_all add: rows)
    qed
    have c2: "\<forall>s\<in>set (seen @ [it]). \<exists>b\<in>set ys. near tol b (i_y s)"
      using cover k by auto
    show ?thesis
      unfolding bucketInv_def res using r sub apart c2 by auto
  qed
qed

lemma nearTransitive_subset:
  "nearTransitive tol items \<Longrightarrow> set xs \<subseteq> set items \<Longrightarrow> nearTransitive tol xs"
  unfolding nearTransitive_def by blast

lemma fold_placeItem_inv:
  "bucketInv tol seen st \<Longrightarrow> nearTransitive tol (seen @ items) \<Longrightarrow> 0 \<le> tol \<Longrightarrow>
   bucketInv tol (seen @ items) (fold (placeItem tol) items st)"
proof (induction items arbitrary: seen st)
  case Nil
  then show ?case by simp
next
  case (Cons it items)
  have "nearTransitive tol (seen @ [it])"
    using Cons.prems(2) by (rule nearTransitive_subset) auto
  from placeItem_inv [OF Cons.prems(1) this Cons.prems(3)]
  have "bucketInv tol ((seen @ [it]) @ items) (fold (placeItem tol) items (placeItem tol it st))"
    using Cons.prems by (intro Cons.IH) simp_all
  then show ?case by simp
qed


lemma yClass_perm: "mset xs = mset ys \<Longrightarrow> yClass tol xs = yClass tol ys"
  by (simp add: yClass_def fun_eq_iff)

lemma yClasses_perm:
  assumes "mset xs = mset ys"
  shows "yClasses tol xs = yClasses tol ys"
proof -
  have "set xs = set ys" using assms by (rule mset_eq_setD)
  then show ?thesis
    by (simp add: yClasses_def yClass_perm [OF assms])
qed

lemma bucketInv_classes:
  assumes inv: "bucketInv tol items st" and tr: "nearTransitive tol items" and tol: "0 \<le> tol"
  shows "mset (map mset (snd st)) = yClasses tol items"
proof -
  obtain ys rows where st: "st = (ys, rows)" by (cases st)
  let ?cls = "yClass tol items"
  have rows: "rows = map (\<lambda>b. filter (\<lambda>it. near tol b (i_y it)) items) ys"
    and sub: "set ys \<subseteq> i_y ` set items"
    and apart: "\<forall>i<length ys. \<forall>j<length ys. i \<noteq> j \<longrightarrow> \<not> near tol (ys ! i) (ys ! j)"
    and cover: "\<forall>s\<in>set items. \<exists>b\<in>set ys. near tol b (i_y s)"
    using inv by (simp_all add: bucketInv_def st)
  have m: "map mset rows = map ?cls ys"
    by (simp add: rows yClass_def)
  have far: "\<not> near tol b b'" if "b \<in> set ys" "b' \<in> set ys" "b \<noteq> b'" for b b'
    using that apart by (metis in_set_conv_nth)
  have dys: "distinct ys"
    unfolding distinct_conv_nth using apart near_refl [OF tol] by metis
  have inj: "inj_on ?cls (set ys)"
  proof (rule inj_onI)
    fix b b' assume b: "b \<in> set ys" "b' \<in> set ys" and eq: "?cls b = ?cls b'"
    from b(1) sub obtain s where s: "s \<in> set items" "i_y s = b" by auto
    then have "s \<in># ?cls b" using tol by (simp add: yClass_def near_refl)
    then have "s \<in># ?cls b'" using eq by simp
    then have "near tol b' b" using s by (simp add: yClass_def)
    then show "b = b'" using far [OF b(2) b(1)] by blast
  qed
  have d: "distinct (map ?cls ys)"
    using dys inj by (simp add: distinct_map)
  have same: "?cls (i_y s) = ?cls b" if "s \<in> set items" "b \<in> set ys" "near tol b (i_y s)" for s b
    unfolding yClass_def
  proof (rule filter_mset_cong [OF refl])
    fix t assume "t \<in># mset items"
    then have t: "i_y t \<in> i_y ` set items" by simp
    have bY: "b \<in> i_y ` set items" using that(2) sub by blast
    have sY: "i_y s \<in> i_y ` set items" using that(1) by simp
    show "near tol (i_y s) (i_y t) = near tol b (i_y t)"
      using nearTransitive_y [OF tr bY sY t that(3)]
        nearTransitive_y [OF tr sY bY t near_sym [OF that(3)]] by blast
  qed
  have img: "?cls ` set ys = (\<lambda>s. ?cls (i_y s)) ` set items"
  proof (intro equalityI subsetI)
    fix c assume "c \<in> ?cls ` set ys"
    then show "c \<in> (\<lambda>s. ?cls (i_y s)) ` set items" using sub by auto
  next
    fix c assume "c \<in> (\<lambda>s. ?cls (i_y s)) ` set items"
    then obtain s where s: "s \<in> set items" "c = ?cls (i_y s)" by auto
    from cover s(1) obtain b where b: "b \<in> set ys" "near tol b (i_y s)" by blast
    show "c \<in> ?cls ` set ys" using same [OF s(1) b] s(2) b(1) by auto
  qed
  have "mset (map mset rows) = mset (map ?cls ys)" by (simp only: m)
  also have "\<dots> = mset_set (set (map ?cls ys))" using d by (simp only: mset_set_set)
  also have "\<dots> = yClasses tol items" by (simp add: yClasses_def img)
  finally show ?thesis by (simp add: st)
qed

lemma clusterRows_classes:
  assumes "nearTransitive tol items" "0 \<le> tol"
  shows "mset (map mset (clusterRows tol items)) = yClasses tol items"
proof -
  have "bucketInv tol [] ([], [])" by (simp add: bucketInv_def)
  from fold_placeItem_inv [OF this, of items] assms
  have "bucketInv tol items (fold (placeItem tol) items ([], []))" by simp
  from bucketInv_classes [OF this assms] show ?thesis by (simp add: clusterRows_def)
qed

lemma mset_insertBy: "mset (insertBy compare x ys) = add_mset x (mset ys)"
  by (induction ys) simp_all

lemma mset_sortBy: "mset (sortBy compare xs) = mset xs"
  by (induction xs) (simp_all add: sortBy_def mset_insertBy)

lemma set_sortBy: "set (sortBy compare xs) = set xs"
  using mset_sortBy [of compare xs] by (metis set_mset_mset)

lemma l_tokens_lineOfRow: "l_tokens (lineOfRow row) = map tokenOfItem (sort_key i_x row)"
  by (simp add: lineOfRow_def Let_def tokenOfItem_def)

lemma mset_l_tokens_lineOfRow:
  "mset (l_tokens (lineOfRow row)) = image_mset tokenOfItem (mset row)"
  by (simp add: l_tokens_lineOfRow)

lemma lineGroupings_groupLines:
  "lineGroupings (groupLines items tol) =
     image_mset (image_mset tokenOfItem) (mset (map mset (clusterRows tol items)))"
proof -
  have "lineGroupings (groupLines items tol) =
      image_mset (\<lambda>line. mset (l_tokens line)) (mset (map lineOfRow (clusterRows tol items)))"
    unfolding lineGroupings_def groupLines_def mset_map mset_sortBy ..
  also have "\<dots> = image_mset (\<lambda>row. mset (l_tokens (lineOfRow row))) (mset (clusterRows tol items))"
    unfolding mset_map multiset.map_comp comp_def ..
  also have "\<dots> = image_mset (\<lambda>row. image_mset tokenOfItem (mset row)) (mset (clusterRows tol items))"
    unfolding mset_l_tokens_lineOfRow ..
  also have "\<dots> = image_mset (image_mset tokenOfItem) (mset (map mset (clusterRows tol items)))"
    unfolding mset_map multiset.map_comp comp_def ..
  finally show ?thesis .
qed

lemma sorted_line_tokens:
  assumes "line \<in> set (groupLines items tol)"
  shows "sorted_wrt (\<lambda>s t. lt_x s \<le> lt_x t) (l_tokens line)"
proof -
  from assms obtain row where line: "line = lineOfRow row"
    by (auto simp: groupLines_def set_sortBy)
  have "sorted_wrt (\<lambda>a b. i_x a \<le> i_x b) (sort_key i_x row)"
    using sorted_sort_key [of i_x row] by (simp add: sorted_map)
  then have "sorted_wrt (\<lambda>a b. lt_x (tokenOfItem a) \<le> lt_x (tokenOfItem b)) (sort_key i_x row)"
    by (simp add: tokenOfItem_def)
  then show ?thesis
    by (simp add: line l_tokens_lineOfRow sorted_wrt_map)
qed

lemma fold_placeItem_keeps:
  "mset (concat (snd (fold (placeItem tol) items st))) = mset (concat (snd st)) + mset items"
  if "length (fst st) = length (snd st)"
  using that
proof (induction items arbitrary: st)
  case Nil
  then show ?case by simp
next
  case (Cons it items)
  have len: "length (fst (placeItem tol it st)) = length (snd (placeItem tol it st))"
    using Cons.prems by (simp add: placeItem_def split: option.splits)
  have upd: "mset (concat (rows[k := rows ! k @ [it]])) = add_mset it (mset (concat rows))"
    if "k < length rows" for rows :: "Item list list" and k
    using that
  proof (induction rows arbitrary: k)
    case Nil
    then show ?case by simp
  next
    case (Cons r rows)
    then show ?case by (cases k) simp_all
  qed
  have "mset (concat (snd (placeItem tol it st))) = add_mset it (mset (concat (snd st)))"
  proof (cases "findBucket (fst st) (i_y it) tol")
    case None
    then show ?thesis by (simp add: placeItem_def)
  next
    case (Some k)
    then have "k < length (snd st)"
      using findBucket_Some [of "fst st" "i_y it" tol k] Cons.prems by simp
    then show ?thesis
      using Some upd by (simp add: placeItem_def)
  qed
  then show ?case
    using Cons.IH [OF len] by simp
qed

lemma clusterRows_keeps: "mset (concat (clusterRows tol items)) = mset items"
  using fold_placeItem_keeps [of "([], [])" tol items] by (simp add: clusterRows_def)

lemma lineGroupings_cover:
  "sum_mset (lineGroupings (groupLines items tol)) = image_mset tokenOfItem (mset items)"
proof -
  have "sum_mset (image_mset (image_mset tokenOfItem) (mset (map mset rows)))
      = image_mset tokenOfItem (mset (concat rows))" for rows
    by (induction rows) simp_all
  then show ?thesis
    by (simp only: lineGroupings_groupLines clusterRows_keeps)
qed

text \<open>
  The test is the code's, on the rounded difference. The doubles nearest to 1.65, 2.9 and
  4.15: the first two are near, the last two are near, and the first and the last are
  not, their difference rounding to the double above 2.5. The doubles nearest to 1.99
  and 4.49 are near: their difference, above 2.5, rounds to 2.5.
\<close>

lemma near_is_rounded:
  "toDouble 1.65 = Fin (3715469692580659 / 2 ^ 51) \<and>
   toDouble 2.9 = Fin (6530219459687219 / 2 ^ 51) \<and>
   toDouble 4.15 = Fin (2336242306698445 / 2 ^ 49) \<and>
   near 2.5 (3715469692580659 / 2 ^ 51) (6530219459687219 / 2 ^ 51) \<and>
   near 2.5 (6530219459687219 / 2 ^ 51) (2336242306698445 / 2 ^ 49) \<and>
   \<not> near 2.5 (3715469692580659 / 2 ^ 51) (2336242306698445 / 2 ^ 49) \<and>
   toDouble 1.99 = Fin (8962163258467287 / 2 ^ 52) \<and>
   toDouble 4.49 = Fin (2527645290861691 / 2 ^ 49) \<and>
   2.5 < \<bar>8962163258467287 / 2 ^ 52 - 2527645290861691 / 2 ^ 49 :: real\<bar> \<and>
   near 2.5 (8962163258467287 / 2 ^ 52) (2527645290861691 / 2 ^ 49)"
  by (simp add: near_def double_eval)

text \<open>
  C1, as the claim states it, fails: the clustering is first-fit against the first height
  of each bucket. Heights 2, 0, 4 in this order make one line (both others are within
  2.5 of the first); in the order 0, 2, 4 they make two lines.
\<close>

theorem C1_first_fit_counterexample:
  "mset [\<lparr>i_str = ''b'', i_x = 20, i_y = 0, i_width = 5, i_height = 8, i_page = 1\<rparr>,
         \<lparr>i_str = ''a'', i_x = 10, i_y = 2, i_width = 5, i_height = 8, i_page = 1\<rparr>,
         \<lparr>i_str = ''c'', i_x = 30, i_y = 4, i_width = 5, i_height = 8, i_page = 1\<rparr>]
   = mset [\<lparr>i_str = ''a'', i_x = 10, i_y = 2, i_width = 5, i_height = 8, i_page = 1\<rparr>,
           \<lparr>i_str = ''b'', i_x = 20, i_y = 0, i_width = 5, i_height = 8, i_page = 1\<rparr>,
           \<lparr>i_str = ''c'', i_x = 30, i_y = 4, i_width = 5, i_height = 8, i_page = 1\<rparr>] \<and>
   map l_tokens (groupLines
        [\<lparr>i_str = ''a'', i_x = 10, i_y = 2, i_width = 5, i_height = 8, i_page = 1\<rparr>,
         \<lparr>i_str = ''b'', i_x = 20, i_y = 0, i_width = 5, i_height = 8, i_page = 1\<rparr>,
         \<lparr>i_str = ''c'', i_x = 30, i_y = 4, i_width = 5, i_height = 8, i_page = 1\<rparr>] 2.5)
   = [[\<lparr>lt_str = ''a'', lt_x = Fin 10, lt_width = Fin 5, lt_height = Fin 8\<rparr>,
       \<lparr>lt_str = ''b'', lt_x = Fin 20, lt_width = Fin 5, lt_height = Fin 8\<rparr>,
       \<lparr>lt_str = ''c'', lt_x = Fin 30, lt_width = Fin 5, lt_height = Fin 8\<rparr>]] \<and>
   map l_tokens (groupLines
        [\<lparr>i_str = ''b'', i_x = 20, i_y = 0, i_width = 5, i_height = 8, i_page = 1\<rparr>,
         \<lparr>i_str = ''a'', i_x = 10, i_y = 2, i_width = 5, i_height = 8, i_page = 1\<rparr>,
         \<lparr>i_str = ''c'', i_x = 30, i_y = 4, i_width = 5, i_height = 8, i_page = 1\<rparr>] 2.5)
   = [[\<lparr>lt_str = ''c'', lt_x = Fin 30, lt_width = Fin 5, lt_height = Fin 8\<rparr>],
      [\<lparr>lt_str = ''a'', lt_x = Fin 10, lt_width = Fin 5, lt_height = Fin 8\<rparr>,
       \<lparr>lt_str = ''b'', lt_x = Fin 20, lt_width = Fin 5, lt_height = Fin 8\<rparr>]] \<and>
   lineGroupings (groupLines
        [\<lparr>i_str = ''b'', i_x = 20, i_y = 0, i_width = 5, i_height = 8, i_page = 1\<rparr>,
         \<lparr>i_str = ''a'', i_x = 10, i_y = 2, i_width = 5, i_height = 8, i_page = 1\<rparr>,
         \<lparr>i_str = ''c'', i_x = 30, i_y = 4, i_width = 5, i_height = 8, i_page = 1\<rparr>] 2.5)
   \<noteq> lineGroupings (groupLines
        [\<lparr>i_str = ''a'', i_x = 10, i_y = 2, i_width = 5, i_height = 8, i_page = 1\<rparr>,
         \<lparr>i_str = ''b'', i_x = 20, i_y = 0, i_width = 5, i_height = 8, i_page = 1\<rparr>,
         \<lparr>i_str = ''c'', i_x = 30, i_y = 4, i_width = 5, i_height = 8, i_page = 1\<rparr>] 2.5)"
proof -
  let ?a = "\<lparr>i_str = ''a'', i_x = 10, i_y = 2, i_width = 5, i_height = 8, i_page = 1\<rparr>"
  let ?b = "\<lparr>i_str = ''b'', i_x = 20, i_y = 0, i_width = 5, i_height = 8, i_page = 1\<rparr>"
  let ?c = "\<lparr>i_str = ''c'', i_x = 30, i_y = 4, i_width = 5, i_height = 8, i_page = 1\<rparr>"
  have perm: "mset [?b, ?a, ?c] = mset [?a, ?b, ?c]"
    by simp
  have one: "groupLines [?a, ?b, ?c] 2.5 =
      [\<lparr>l_y = Fin 2, l_page = 1, l_tokens =
         [\<lparr>lt_str = ''a'', lt_x = Fin 10, lt_width = Fin 5, lt_height = Fin 8\<rparr>,
          \<lparr>lt_str = ''b'', lt_x = Fin 20, lt_width = Fin 5, lt_height = Fin 8\<rparr>,
          \<lparr>lt_str = ''c'', lt_x = Fin 30, lt_width = Fin 5, lt_height = Fin 8\<rparr>]\<rparr>]"
    by (simp add: groupLines_def sortBy_def clusterRows_def placeItem_def lineOfRow_def
        meanY_def double_eval)
  have two: "groupLines [?b, ?a, ?c] 2.5 =
      [\<lparr>l_y = Fin 4, l_page = 1, l_tokens =
         [\<lparr>lt_str = ''c'', lt_x = Fin 30, lt_width = Fin 5, lt_height = Fin 8\<rparr>]\<rparr>,
       \<lparr>l_y = Fin 1, l_page = 1, l_tokens =
         [\<lparr>lt_str = ''a'', lt_x = Fin 10, lt_width = Fin 5, lt_height = Fin 8\<rparr>,
          \<lparr>lt_str = ''b'', lt_x = Fin 20, lt_width = Fin 5, lt_height = Fin 8\<rparr>]\<rparr>]"
    by (simp add: groupLines_def sortBy_def compareLines_def clusterRows_def placeItem_def
        lineOfRow_def meanY_def double_eval)
  have "size (lineGroupings (groupLines [?b, ?a, ?c] 2.5))
      \<noteq> size (lineGroupings (groupLines [?a, ?b, ?c] 2.5))"
    unfolding one two by (simp add: lineGroupings_def)
  then have diff: "lineGroupings (groupLines [?b, ?a, ?c] 2.5)
      \<noteq> lineGroupings (groupLines [?a, ?b, ?c] 2.5)"
    by metis
  have m1: "map l_tokens (groupLines [?a, ?b, ?c] 2.5)
   = [[\<lparr>lt_str = ''a'', lt_x = Fin 10, lt_width = Fin 5, lt_height = Fin 8\<rparr>,
       \<lparr>lt_str = ''b'', lt_x = Fin 20, lt_width = Fin 5, lt_height = Fin 8\<rparr>,
       \<lparr>lt_str = ''c'', lt_x = Fin 30, lt_width = Fin 5, lt_height = Fin 8\<rparr>]]"
    unfolding one by simp
  have m2: "map l_tokens (groupLines [?b, ?a, ?c] 2.5)
   = [[\<lparr>lt_str = ''c'', lt_x = Fin 30, lt_width = Fin 5, lt_height = Fin 8\<rparr>],
      [\<lparr>lt_str = ''a'', lt_x = Fin 10, lt_width = Fin 5, lt_height = Fin 8\<rparr>,
       \<lparr>lt_str = ''b'', lt_x = Fin 20, lt_width = Fin 5, lt_height = Fin 8\<rparr>]]"
    unfolding two by simp
  show ?thesis
    using perm m1 m2 diff by blast
qed

text \<open>
  C1 (amended): for every list of positioned tokens on which nearness of heights (the
  code's test, with tolerance 2.5) is transitive, and every permutation of that list,
  \<open>groupLines\<close> on the permuted list gives the same partition of the tokens into lines as
  on the original list. For every list, each token is in exactly one line, and the
  tokens of each line are in ascending order of \<open>x\<close>.
\<close>

theorem C1_groupLines_permutation:
  "(mset permuted = mset items \<and> nearTransitive 2.5 items \<longrightarrow>
      lineGroupings (groupLines permuted 2.5) = lineGroupings (groupLines items 2.5)) \<and>
   sum_mset (lineGroupings (groupLines items 2.5)) = image_mset tokenOfItem (mset items) \<and>
   (\<forall>line\<in>set (groupLines items 2.5).
      sorted_wrt (\<lambda>s t. lt_x s \<le> lt_x t) (l_tokens line))"
proof -
  have "lineGroupings (groupLines permuted 2.5) = lineGroupings (groupLines items 2.5)"
    if perm: "mset permuted = mset items" and tr0: "nearTransitive 2.5 items"
  proof -
    have "set permuted = set items" using perm by (rule mset_eq_setD)
    then have "set permuted \<subseteq> set items" by blast
    with tr0 have tr: "nearTransitive 2.5 permuted"
      by (rule nearTransitive_subset)
    have z: "(0::real) \<le> 2.5" by simp
    have "mset (map mset (clusterRows 2.5 permuted)) = yClasses 2.5 permuted"
      using tr z by (rule clusterRows_classes)
    also have "\<dots> = yClasses 2.5 items"
      using perm by (rule yClasses_perm)
    also have "\<dots> = mset (map mset (clusterRows 2.5 items))"
      using tr0 z by (rule clusterRows_classes [symmetric])
    finally show ?thesis
      by (simp only: lineGroupings_groupLines)
  qed
  then show ?thesis
    using sorted_line_tokens lineGroupings_cover by blast
qed

theorem C1_groupLines_permutation_witness:
  "mset [\<lparr>i_str = ''c'', i_x = 10, i_y = 200, i_width = 5, i_height = 8, i_page = 1\<rparr>,
         \<lparr>i_str = ''b'', i_x = 50, i_y = 101, i_width = 5, i_height = 8, i_page = 1\<rparr>,
         \<lparr>i_str = ''a'', i_x = 10, i_y = 100, i_width = 5, i_height = 8, i_page = 1\<rparr>]
   = mset [\<lparr>i_str = ''a'', i_x = 10, i_y = 100, i_width = 5, i_height = 8, i_page = 1\<rparr>,
           \<lparr>i_str = ''b'', i_x = 50, i_y = 101, i_width = 5, i_height = 8, i_page = 1\<rparr>,
           \<lparr>i_str = ''c'', i_x = 10, i_y = 200, i_width = 5, i_height = 8, i_page = 1\<rparr>] \<and>
   nearTransitive 2.5
        [\<lparr>i_str = ''a'', i_x = 10, i_y = 100, i_width = 5, i_height = 8, i_page = 1\<rparr>,
         \<lparr>i_str = ''b'', i_x = 50, i_y = 101, i_width = 5, i_height = 8, i_page = 1\<rparr>,
         \<lparr>i_str = ''c'', i_x = 10, i_y = 200, i_width = 5, i_height = 8, i_page = 1\<rparr>] \<and>
   lineGroupings (groupLines
        [\<lparr>i_str = ''c'', i_x = 10, i_y = 200, i_width = 5, i_height = 8, i_page = 1\<rparr>,
         \<lparr>i_str = ''b'', i_x = 50, i_y = 101, i_width = 5, i_height = 8, i_page = 1\<rparr>,
         \<lparr>i_str = ''a'', i_x = 10, i_y = 100, i_width = 5, i_height = 8, i_page = 1\<rparr>] 2.5)
   = lineGroupings (groupLines
        [\<lparr>i_str = ''a'', i_x = 10, i_y = 100, i_width = 5, i_height = 8, i_page = 1\<rparr>,
         \<lparr>i_str = ''b'', i_x = 50, i_y = 101, i_width = 5, i_height = 8, i_page = 1\<rparr>,
         \<lparr>i_str = ''c'', i_x = 10, i_y = 200, i_width = 5, i_height = 8, i_page = 1\<rparr>] 2.5) \<and>
   map l_tokens (groupLines
        [\<lparr>i_str = ''a'', i_x = 10, i_y = 100, i_width = 5, i_height = 8, i_page = 1\<rparr>,
         \<lparr>i_str = ''b'', i_x = 50, i_y = 101, i_width = 5, i_height = 8, i_page = 1\<rparr>,
         \<lparr>i_str = ''c'', i_x = 10, i_y = 200, i_width = 5, i_height = 8, i_page = 1\<rparr>] 2.5)
   = [[\<lparr>lt_str = ''c'', lt_x = Fin 10, lt_width = Fin 5, lt_height = Fin 8\<rparr>],
      [\<lparr>lt_str = ''a'', lt_x = Fin 10, lt_width = Fin 5, lt_height = Fin 8\<rparr>,
       \<lparr>lt_str = ''b'', lt_x = Fin 50, lt_width = Fin 5, lt_height = Fin 8\<rparr>]]"
proof -
  let ?a = "\<lparr>i_str = ''a'', i_x = 10, i_y = 100, i_width = 5, i_height = 8, i_page = 1\<rparr>"
  let ?b = "\<lparr>i_str = ''b'', i_x = 50, i_y = 101, i_width = 5, i_height = 8, i_page = 1\<rparr>"
  let ?c = "\<lparr>i_str = ''c'', i_x = 10, i_y = 200, i_width = 5, i_height = 8, i_page = 1\<rparr>"
  have perm: "mset [?c, ?b, ?a] = mset [?a, ?b, ?c]"
    by simp
  have tr: "nearTransitive 2.5 [?a, ?b, ?c]"
    by (simp add: nearTransitive_def near_def double_eval)
  have ev: "map l_tokens (groupLines [?a, ?b, ?c] 2.5)
     = [[\<lparr>lt_str = ''c'', lt_x = Fin 10, lt_width = Fin 5, lt_height = Fin 8\<rparr>],
      [\<lparr>lt_str = ''a'', lt_x = Fin 10, lt_width = Fin 5, lt_height = Fin 8\<rparr>,
       \<lparr>lt_str = ''b'', lt_x = Fin 50, lt_width = Fin 5, lt_height = Fin 8\<rparr>]]"
    by (simp add: groupLines_def sortBy_def compareLines_def clusterRows_def placeItem_def
        lineOfRow_def meanY_def double_eval)
  from C1_groupLines_permutation [of "[?c, ?b, ?a]" "[?a, ?b, ?c]"] perm tr ev show ?thesis
    by blast
qed
section \<open>Player lines (C6, C7)\<close>


lemma classifyToken_collecting:
  "classifyToken t (names, stats, True) = (names, stats @ [t], True)"
  by (simp add: classifyToken_def)

lemma classifyToken_stat:
  "\<not> notStat t \<Longrightarrow> classifyToken t (names, stats, False) = (names, stats @ [t], True)"
  by (simp add: classifyToken_def notStat_def)

lemma classifyToken_name:
  "notStat t \<Longrightarrow> classifyToken t (names, stats, False) =
     ((if nameLike t then names @ [t_text t] else names), stats, False)"
  by (simp add: classifyToken_def notStat_def nameLike_def)

lemma fold_classify_collecting:
  "fold classifyToken ts (names, stats, True) = (names, stats @ ts, True)"
  by (induction ts arbitrary: stats) (simp_all add: classifyToken_collecting)

lemma fold_classify:
  "fold classifyToken ts (names, stats, False) =
     (names @ map t_text (filter nameLike (takeWhile notStat ts)),
      stats @ dropWhile notStat ts,
      dropWhile notStat ts \<noteq> [])"
proof (induction ts arbitrary: names)
  case Nil
  then show ?case by simp
next
  case (Cons t ts)
  show ?case
  proof (cases "notStat t")
    case True
    then show ?thesis
      using Cons [of "names @ [t_text t]"] Cons [of names]
      by (simp add: classifyToken_name)
  next
    case False
    then show ?thesis
      by (simp add: classifyToken_stat fold_classify_collecting)
  qed
qed

lemma parsePlayerLine_Some:
  assumes "parsePlayerLine line = Some r"
  shows "\<exists>numberIndex numberText.
     findNumber 0 (take 3 (flattenTokens line)) = Some (numberIndex, numberText) \<and>
     pp_number r = digitsValue numberText \<and>
     pp_name r = trim (join '' '' (map t_text (filter nameLike
        (takeWhile notStat (remainingTokens (flattenTokens line) numberIndex))))) \<and>
     pp_name r \<noteq> [] \<and>
     pp_statTokens r = dropWhile notStat (remainingTokens (flattenTokens line) numberIndex) \<and>
     pp_rawStats r = map t_text (pp_statTokens r) \<and>
     pp_lineText r = getLineText line"
  using assms
  by (auto simp: parsePlayerLine_def Let_def fold_classify split: if_splits option.splits prod.splits)






lemma findNumber_shift:
  "findNumber (Suc i) ts = map_option (\<lambda>(j, d). (Suc j, d)) (findNumber i ts)"
  by (induction ts arbitrary: i) (simp_all add: Let_def)







text \<open>
  C7: in every record \<open>parsePlayerLine\<close> returns, the stat tokens are the tokens after the
  number (and the libero markers) from the first stat-shaped token on, whatever their
  shape, and the name is made of tokens before that one only.
\<close>

theorem C7_name_stat_partition:
  assumes "parsePlayerLine line = Some r"
  shows "\<exists>numberIndex numberText.
     findNumber 0 (take 3 (flattenTokens line)) = Some (numberIndex, numberText) \<and>
     pp_statTokens r = dropWhile notStat (remainingTokens (flattenTokens line) numberIndex) \<and>
     pp_rawStats r = map t_text (dropWhile notStat (remainingTokens (flattenTokens line) numberIndex)) \<and>
     pp_name r = trim (join '' '' (map t_text (filter nameLike
        (takeWhile notStat (remainingTokens (flattenTokens line) numberIndex)))))"
  using parsePlayerLine_Some [OF assms] by auto

theorem C7_name_stat_partition_witness:
  "parsePlayerLine (lineOfWords [''7'', ''Ana'', ''12'', ''Silva'']) =
     Some \<lparr>pp_number = 7, pp_name = ''Ana'', pp_rawStats = [''12'', ''Silva''],
           pp_lineText = ''7 Ana 12 Silva'',
           pp_statTokens =
             [\<lparr>t_text = ''12'', t_x = Fin 40, t_width = Fin 10, t_height = Fin 8\<rparr>,
              \<lparr>t_text = ''Silva'', t_x = Fin 60, t_width = Fin 10, t_height = Fin 8\<rparr>]\<rparr> \<and>
   dropWhile notStat (remainingTokens (flattenTokens (lineOfWords [''7'', ''Ana'', ''12'', ''Silva''])) 0)
     = [\<lparr>t_text = ''12'', t_x = Fin 40, t_width = Fin 10, t_height = Fin 8\<rparr>,
        \<lparr>t_text = ''Silva'', t_x = Fin 60, t_width = Fin 10, t_height = Fin 8\<rparr>]"
proof -
  let ?line = "lineOfWords [''7'', ''Ana'', ''12'', ''Silva'']"
  let ?r = "\<lparr>pp_number = 7, pp_name = ''Ana'', pp_rawStats = [''12'', ''Silva''],
           pp_lineText = ''7 Ana 12 Silva'',
           pp_statTokens =
             [\<lparr>t_text = ''12'', t_x = Fin 40, t_width = Fin 10, t_height = Fin 8\<rparr>,
              \<lparr>t_text = ''Silva'', t_x = Fin 60, t_width = Fin 10, t_height = Fin 8\<rparr>]\<rparr>"
  have ev: "parsePlayerLine ?line = Some ?r"
    by code_simp
  have num: "findNumber 0 (take 3 (flattenTokens ?line)) = Some (0, ''7'')"
    by code_simp
  from C7_name_stat_partition [OF ev] obtain numberIndex numberText where
    f: "findNumber 0 (take 3 (flattenTokens ?line)) = Some (numberIndex, numberText)"
    and s: "pp_statTokens ?r = dropWhile notStat (remainingTokens (flattenTokens ?line) numberIndex)"
    by blast
  from f num have "numberIndex = 0" by simp
  with s have "dropWhile notStat (remainingTokens (flattenTokens ?line) 0) = pp_statTokens ?r"
    by simp
  then show ?thesis
    using ev by simp
qed

section \<open>Extracting the players (C3)\<close>


lemma includes_str_Nil [simp]: "includes_str [] (p # ps) = False"
  by simp

lemma isTotalsLine_text: "isTotalsLine line \<Longrightarrow> getLineText line \<noteq> []"
  by (auto simp: isTotalsLine_def toLowerCase_def)

lemma extractLoop_step:
  "extractLoop index (line # lines) st =
     (if isTotalsLine line \<and> 1 \<le> playersTotalCount st then stopResult index st
      else extractLoop (Suc index) lines (nextState index line st))"
proof (cases "isTotalsLine line")
  case True
  then show ?thesis
    using isTotalsLine_text [OF True]
    by (simp add: Let_def stopResult_def nextState_def isTotalsLine_def [symmetric])
next
  case False
  then show ?thesis
    by (simp add: Let_def nextState_def isTotalsLine_def [symmetric]
        split: option.splits)
qed

lemma extractLoop_Nil: "extractLoop index [] st = endResult st"
  by (simp add: endResult_def)

lemma count_nextState:
  "playersTotalCount (nextState index line st) =
     playersTotalCount st + (if isTotalsLine line then 1 else 0)"
  using isTotalsLine_text [of line]
  by (auto simp: nextState_def Let_def split: option.splits)

lemma count_scanLines:
  "playersTotalCount (scanLines index lines st) =
     playersTotalCount st + length (filter isTotalsLine lines)"
  by (induction lines arbitrary: index st) (simp_all add: count_nextState)

lemma extractLoop_no_stop:
  "playersTotalCount st + length (filter isTotalsLine pre) \<le> 1 \<Longrightarrow>
   extractLoop index (pre @ rest) st =
     extractLoop (index + length pre) rest (scanLines index pre st)"
proof (induction pre arbitrary: index st)
  case Nil
  then show ?case by simp
next
  case (Cons line pre)
  have ns: "(isTotalsLine line \<and> 1 \<le> playersTotalCount st) = False"
    using Cons.prems by auto
  have step: "extractLoop index ((line # pre) @ rest) st =
      extractLoop (Suc index) (pre @ rest) (nextState index line st)"
    by (simp only: append_Cons extractLoop_step ns if_False)
  have "playersTotalCount (nextState index line st) + length (filter isTotalsLine pre) \<le> 1"
    using Cons.prems by (simp add: count_nextState split: if_splits)
  from Cons.IH [OF this, of "Suc index"] show ?case
    unfolding step by simp
qed

lemma extractLoop_to_end:
  "playersTotalCount st + length (filter isTotalsLine lines) \<le> 1 \<Longrightarrow>
   extractLoop index lines st = endResult (scanLines index lines st)"
  using extractLoop_no_stop [of st lines index "[]"] by (simp add: extractLoop_Nil del: extractLoop.simps)

lemma extractLoop_stop:
  assumes "isTotalsLine m" "playersTotalCount st + length (filter isTotalsLine pre) = 1"
  shows "extractLoop index (pre @ m # post) st =
     stopResult (index + length pre) (scanLines index pre st)"
proof -
  have "extractLoop index (pre @ m # post) st =
      extractLoop (index + length pre) (m # post) (scanLines index pre st)"
    using assms(2) by (intro extractLoop_no_stop) simp
  moreover have "1 \<le> playersTotalCount (scanLines index pre st)"
    using assms(2) by (simp add: count_scanLines)
  ultimately show ?thesis
    using assms(1) by (simp only: extractLoop_step simp_thms if_True)
qed


lemma nextState_players:
  "(playersFound (nextState index line st) = playersFound st \<and>
    lastPlayerLineIndex (nextState index line st) = lastPlayerLineIndex st) \<or>
   (\<exists>p. playersFound (nextState index line st) = playersFound st @ [p] \<and>
    lastPlayerLineIndex (nextState index line st) = int index)"
  by (auto simp: nextState_def Let_def split: option.splits)

lemma scanLines_append:
  "scanLines index (xs @ ys) st = scanLines (index + length xs) ys (scanLines index xs st)"
  by (induction xs arbitrary: index st) simp_all

lemma scanLines_last:
  "(playersFound (scanLines index lines st) = playersFound st \<longrightarrow>
      lastPlayerLineIndex (scanLines index lines st) = lastPlayerLineIndex st) \<and>
   (playersFound (scanLines index lines st) \<noteq> playersFound st \<longrightarrow>
      (\<exists>i. lastPlayerLineIndex (scanLines index lines st) = int i \<and>
         index \<le> i \<and> i < index + length lines \<and>
         playersFound (scanLines index (take (Suc (i - index)) lines) st)
           = playersFound (scanLines index lines st) \<and>
         playersFound (scanLines index (take (i - index) lines) st)
           = butlast (playersFound (scanLines index lines st)))) \<and>
   (\<exists>extra. playersFound (scanLines index lines st) = playersFound st @ extra)"
proof (induction lines rule: rev_induct)
  case Nil
  then show ?case by simp
next
  case (snoc line lines)
  let ?before = "scanLines index lines st"
  let ?after = "scanLines index (lines @ [line]) st"
  have after: "?after = nextState (index + length lines) line ?before"
    by (simp add: scanLines_append)
  from snoc obtain extra where extra: "playersFound ?before = playersFound st @ extra"
    by blast
  consider (same) "playersFound ?after = playersFound ?before"
      "lastPlayerLineIndex ?after = lastPlayerLineIndex ?before"
    | (emit) p where "playersFound ?after = playersFound ?before @ [p]"
      "lastPlayerLineIndex ?after = int (index + length lines)"
    using nextState_players [of "index + length lines" line ?before] unfolding after by blast
  then show ?case
  proof cases
    case same
    show ?thesis
    proof (cases "playersFound ?before = playersFound st")
      case True
      then show ?thesis using same snoc extra by simp
    next
      case False
      with snoc obtain i where i: "lastPlayerLineIndex ?before = int i" "index \<le> i"
        "i < index + length lines"
        "playersFound (scanLines index (take (Suc (i - index)) lines) st) = playersFound ?before"
        "playersFound (scanLines index (take (i - index) lines) st) = butlast (playersFound ?before)"
        by blast
      have "take (Suc (i - index)) (lines @ [line]) = take (Suc (i - index)) lines"
        and "take (i - index) (lines @ [line]) = take (i - index) lines"
        using i(2,3) by simp_all
      then show ?thesis
        using same i extra False by (auto intro!: exI [of _ i])
    qed
  next
    case emit
    have "take (Suc (index + length lines - index)) (lines @ [line]) = lines @ [line]"
      and "take (index + length lines - index) (lines @ [line]) = lines"
      by simp_all
    moreover have "butlast (playersFound st @ extra @ [p]) = playersFound st @ extra"
      by (simp add: butlast_append)
    ultimately show ?thesis
      using emit extra by (auto intro!: exI [of _ "index + length lines"])
  qed
qed


lemma extractPlayers_to_end:
  assumes "length (filter isTotalsLine lines) \<le> 1"
  shows "extractPlayers lines = endResult (scanLines 0 lines initialState)"
  using extractLoop_to_end [of initialState lines 0] assms
  by (simp add: extractPlayers_def initialState_def)

lemma filter_take_le: "length (filter P (take n xs)) \<le> length (filter P xs)"
proof -
  have "length (filter P xs) = length (filter P (take n xs)) + length (filter P (drop n xs))"
    by (metis append_take_drop_id filter_append length_append)
  then show ?thesis by simp
qed

lemma extractPlayers_few_totals:
  assumes few: "length (filter isTotalsLine lines) \<le> 1"
  shows "(r_players (extractPlayers lines) = [] \<longrightarrow>
       r_lastPlayerLineIndex (extractPlayers lines) = - 1) \<and>
     (r_players (extractPlayers lines) \<noteq> [] \<longrightarrow>
       (\<exists>i<length lines. r_lastPlayerLineIndex (extractPlayers lines) = int i \<and>
          r_players (extractPlayers (take (Suc i) lines)) = r_players (extractPlayers lines) \<and>
          r_players (extractPlayers (take i lines)) = butlast (r_players (extractPlayers lines))))"
proof -
  have pre: "extractPlayers (take n lines) = endResult (scanLines 0 (take n lines) initialState)" for n
    using few filter_take_le [of isTotalsLine n lines]
    by (intro extractPlayers_to_end) simp
  have init: "playersFound initialState = []" "lastPlayerLineIndex initialState = - 1"
    by (simp_all add: initialState_def)
  show ?thesis
    using scanLines_last [of 0 lines initialState]
    unfolding extractPlayers_to_end [OF few] pre init
    by (auto simp: endResult_def)
qed

lemma extractPlayers_second_totals:
  assumes m: "isTotalsLine m" and one: "length (filter isTotalsLine pre) = 1"
  shows "extractPlayers (pre @ m # post) = extractPlayers (pre @ [m]) \<and>
     r_players (extractPlayers (pre @ m # post)) = r_players (extractPlayers pre) \<and>
     r_lastPlayerLineIndex (extractPlayers (pre @ m # post)) =
       (if r_players (extractPlayers pre) \<noteq> [] then r_lastPlayerLineIndex (extractPlayers pre)
        else int (length pre) - 1) \<and>
     r_lastPlayerLineIndex (extractPlayers (pre @ m # post)) < int (length pre)"
proof -
  have c: "playersTotalCount initialState + length (filter isTotalsLine pre) = 1"
    using one by (simp add: initialState_def)
  have stop: "extractPlayers (pre @ m # rest) = stopResult (length pre) (scanLines 0 pre initialState)"
    for rest
    using extractLoop_stop [OF m c, of 0 rest] by (simp add: extractPlayers_def initialState_def)
  have e: "extractPlayers pre = endResult (scanLines 0 pre initialState)"
    using one by (intro extractPlayers_to_end) simp
  have few: "(r_players (extractPlayers pre) = [] \<longrightarrow>
       r_lastPlayerLineIndex (extractPlayers pre) = - 1) \<and>
     (r_players (extractPlayers pre) \<noteq> [] \<longrightarrow>
       (\<exists>i<length pre. r_lastPlayerLineIndex (extractPlayers pre) = int i))"
    using extractPlayers_few_totals [of pre] one by auto
  show ?thesis
    using few unfolding stop e by (auto simp: stopResult_def endResult_def)
qed

lemma extractLoop_first_totals:
  assumes "isTotalsLine m" "playersTotalCount st = 0"
  shows "extractLoop index (m # rest) st =
     extractLoop (Suc index) rest (st\<lparr>playersTotalCount := 1, currentTeam := None\<rparr>)"
proof -
  have "nextState index m st = st\<lparr>playersTotalCount := 1, currentTeam := None\<rparr>"
    using assms isTotalsLine_text [OF assms(1)] by (simp add: nextState_def)
  then show ?thesis
    using assms by (simp only: extractLoop_step) simp
qed

lemma extractLoop_later_totals:
  assumes "isTotalsLine m" "1 \<le> playersTotalCount st"
  shows "extractLoop index (m # rest) st =
     \<lparr>r_players = playersFound st,
      r_lastPlayerLineIndex =
        (if lastPlayerLineIndex st \<ge> 0 then lastPlayerLineIndex st else int index - 1)\<rparr>"
  using assms by (simp only: extractLoop_step stopResult_def) simp

text \<open>
  C3, as the claim states it, fails: when no player was emitted before the second marker,
  the source returns the index just before that marker. Here no line emits a player, and
  the returned index is 0.
\<close>

theorem C3_no_player_counterexample:
  "r_players (extractPlayers [lineOfWords [''Players Total''], lineOfWords [''Players Total'']]) = [] \<and>
   r_lastPlayerLineIndex
     (extractPlayers [lineOfWords [''Players Total''], lineOfWords [''Players Total'']]) = 0"
  by code_simp

text \<open>
  C3 (amended): \<open>extractPlayers\<close> returns at the second line whose text contains "players
  total" (in any case), whatever follows it. The players returned are those emitted
  before that line. The returned \<open>lastPlayerLineIndex\<close> is the index of the last line from
  which a player was emitted when there is one (the lines up to it give all the players,
  the lines before it all but the last), and otherwise the index just before the second
  marker; it is never the marker's own index. Without a second marker the index is that
  of the last emitting line, or -1. At the first marker the scan goes on with the current
  team reset to none.
\<close>

theorem C3_extractPlayers_termination:
  "(isTotalsLine m \<and> length (filter isTotalsLine pre) = 1 \<longrightarrow>
      extractPlayers (pre @ m # post) = extractPlayers (pre @ [m]) \<and>
      r_players (extractPlayers (pre @ m # post)) = r_players (extractPlayers pre) \<and>
      r_lastPlayerLineIndex (extractPlayers (pre @ m # post)) =
        (if r_players (extractPlayers pre) \<noteq> [] then r_lastPlayerLineIndex (extractPlayers pre)
         else int (length pre) - 1) \<and>
      r_lastPlayerLineIndex (extractPlayers (pre @ m # post)) < int (length pre)) \<and>
   (length (filter isTotalsLine lines) \<le> 1 \<longrightarrow>
      (r_players (extractPlayers lines) = [] \<longrightarrow>
         r_lastPlayerLineIndex (extractPlayers lines) = - 1) \<and>
      (r_players (extractPlayers lines) \<noteq> [] \<longrightarrow>
         (\<exists>i<length lines. r_lastPlayerLineIndex (extractPlayers lines) = int i \<and>
            r_players (extractPlayers (take (Suc i) lines)) = r_players (extractPlayers lines) \<and>
            r_players (extractPlayers (take i lines)) = butlast (r_players (extractPlayers lines))))) \<and>
   (isTotalsLine m \<and> playersTotalCount st = 0 \<longrightarrow>
      extractLoop index (m # rest) st =
        extractLoop (Suc index) rest (st\<lparr>playersTotalCount := 1, currentTeam := None\<rparr>)) \<and>
   (isTotalsLine m \<and> 1 \<le> playersTotalCount st \<longrightarrow>
      extractLoop index (m # rest) st =
        \<lparr>r_players = playersFound st,
         r_lastPlayerLineIndex =
           (if lastPlayerLineIndex st \<ge> 0 then lastPlayerLineIndex st else int index - 1)\<rparr>)"
  using extractPlayers_second_totals [of m pre post] extractPlayers_few_totals [of lines]
    extractLoop_first_totals [of m st index rest] extractLoop_later_totals [of m st index rest]
  by blast

theorem C3_extractPlayers_termination_witness:
  "isTotalsLine (lineOfWords [''Players Total'']) \<and>
   length (filter isTotalsLine sampleHead) = 1 \<and>
   map (pp_name \<circ> fp_player)
     (r_players (extractPlayers (sampleHead @ lineOfWords [''Players Total''] # sampleTail)))
     = [''Ana Silva'', ''Ines Costa''] \<and>
   r_lastPlayerLineIndex
     (extractPlayers (sampleHead @ lineOfWords [''Players Total''] # sampleTail)) = 4"
proof -
  have m: "isTotalsLine (lineOfWords [''Players Total''])"
    by code_simp
  have one: "length (filter isTotalsLine sampleHead) = 1"
    by code_simp
  have names: "map (pp_name \<circ> fp_player) (r_players (extractPlayers sampleHead))
      = [''Ana Silva'', ''Ines Costa'']"
    by code_simp
  have idx: "r_lastPlayerLineIndex (extractPlayers sampleHead) = 4"
    by code_simp
  have some: "r_players (extractPlayers sampleHead) \<noteq> []"
    using names by auto
  from C3_extractPlayers_termination [of "lineOfWords [''Players Total'']" sampleHead sampleTail]
    m one
  have "r_players (extractPlayers (sampleHead @ lineOfWords [''Players Total''] # sampleTail))
      = r_players (extractPlayers sampleHead)"
    and "r_lastPlayerLineIndex
       (extractPlayers (sampleHead @ lineOfWords [''Players Total''] # sampleTail)) =
       (if r_players (extractPlayers sampleHead) \<noteq> []
        then r_lastPlayerLineIndex (extractPlayers sampleHead)
        else int (length sampleHead) - 1)"
    by blast+
  then show ?thesis
    using m one names idx some by simp
qed

section \<open>Match date and time (C8)\<close>


lemma String_nat_nonempty: "String_nat n \<noteq> []"
  by (subst String_nat.simps) simp

lemma pad_nonempty: "pad n \<noteq> []"
  by (simp add: pad_def String_nat_nonempty)

lemma formatDateNumbers_nonempty: "formatDateNumbers d m y \<noteq> Some []"
  by (simp add: formatDateNumbers_def dateString_def Let_def)

lemma formatDateForInput_nonempty: "formatDateForInput raw \<noteq> Some []"
  by (simp add: formatDateForInput_def Let_def formatDateNumbers_nonempty split: option.split)

lemma timeString_nonempty: "timeString mer h m \<noteq> []"
  by (simp add: timeString_def Let_def)

lemma formatTimeForInput_nonempty: "formatTimeForInput raw \<noteq> Some []"
  by (simp add: formatTimeForInput_def Let_def timeString_nonempty split: option.split)

lemma dateOfLine_nonempty: "dateOfLine line \<noteq> Some []"
  by (simp add: dateOfLine_def dateOfText_def formatDateForInput_nonempty split: option.splits)

lemma timeOfLine_nonempty: "timeOfLine line \<noteq> Some []"
  by (simp add: timeOfLine_def timeOfText_def formatTimeForInput_nonempty split: option.splits)

lemma firstSome_nonempty:
  "\<forall>x\<in>set xs. x \<noteq> Some [] \<Longrightarrow> firstSome xs \<noteq> Some []"
  by (induction xs rule: firstSome.induct) simp_all

lemma metadataLoop_step:
  assumes "d \<noteq> Some []" "t \<noteq> Some []"
  shows "metadataLoop (line # lines) d t =
     (if getLineText line \<noteq> [] \<and>
         orElse d (dateOfLine line) \<noteq> None \<and> orElse t (timeOfLine line) \<noteq> None
      then (orElse d (dateOfLine line), orElse t (timeOfLine line))
      else metadataLoop lines (orElse d (dateOfLine line)) (orElse t (timeOfLine line)))"
proof (cases "getLineText line = []")
  case True
  then show ?thesis
    using assms
    by (cases d; cases t) (simp_all add: orElse_def dateOfLine_def timeOfLine_def)
next
  case False
  have d': "(if falsy d then (case rxExec DATE_REGEX (getLineText line) of
        None \<Rightarrow> d | Some m \<Rightarrow> dateOfText (getLineText line)) else d) = orElse d (dateOfLine line)"
    using assms(1) False
    by (cases d) (simp_all add: falsy_def orElse_def dateOfLine_def dateOfText_def split: option.splits)
  have t': "(if falsy t then (case rxExec TIME_REGEX (getLineText line) of
        None \<Rightarrow> t | Some m \<Rightarrow> timeOfText (getLineText line)) else t) = orElse t (timeOfLine line)"
    using assms(2) False
    by (cases t) (simp_all add: falsy_def orElse_def timeOfLine_def timeOfText_def split: option.splits)
  have f: "falsy v \<longleftrightarrow> v = None" if "v \<noteq> Some []" for v
    using that by (simp add: falsy_def)
  have nd: "orElse d (dateOfLine line) \<noteq> Some []"
    using assms(1) dateOfLine_nonempty [of line] by (cases d) (simp_all add: orElse_def)
  have nt: "orElse t (timeOfLine line) \<noteq> Some []"
    using assms(2) timeOfLine_nonempty [of line] by (cases t) (simp_all add: orElse_def)
  show ?thesis
    using False by (simp add: Let_def d' t' f [OF nd] f [OF nt])
qed

lemma metadataLoop_firstSome:
  assumes "d \<noteq> Some []" "t \<noteq> Some []"
  shows "metadataLoop lines d t =
     (orElse d (firstSome (map dateOfLine lines)), orElse t (firstSome (map timeOfLine lines)))"
  using assms
proof (induction lines arbitrary: d t)
  case Nil
  then show ?case by (cases d; cases t) (simp_all add: orElse_def)
next
  case (Cons line lines)
  have nd: "orElse d (dateOfLine line) \<noteq> Some []"
    using Cons.prems(1) dateOfLine_nonempty [of line] by (cases d) (simp_all add: orElse_def)
  have nt: "orElse t (timeOfLine line) \<noteq> Some []"
    using Cons.prems(2) timeOfLine_nonempty [of line] by (cases t) (simp_all add: orElse_def)
  have assoc: "orElse (orElse a b) (firstSome xs) = orElse a (firstSome (b # xs))"
    for a b :: "string option" and xs
    by (cases a; cases b) (simp_all add: orElse_def)
  have found: "orElse a c = a" if "a \<noteq> None" for a c :: "string option"
    using that by (cases a) (simp_all add: orElse_def)
  show ?case
  proof (cases "getLineText line \<noteq> [] \<and>
      orElse d (dateOfLine line) \<noteq> None \<and> orElse t (timeOfLine line) \<noteq> None")
    case True
    then have "metadataLoop (line # lines) d t = (orElse d (dateOfLine line), orElse t (timeOfLine line))"
      using metadataLoop_step [OF Cons.prems, of line lines] by (simp del: metadataLoop.simps)
    moreover have "orElse d (firstSome (map dateOfLine (line # lines))) = orElse d (dateOfLine line)"
      using True found [of "orElse d (dateOfLine line)" "firstSome (map dateOfLine lines)"]
      by (simp add: assoc)
    moreover have "orElse t (firstSome (map timeOfLine (line # lines))) = orElse t (timeOfLine line)"
      using True found [of "orElse t (timeOfLine line)" "firstSome (map timeOfLine lines)"]
      by (simp add: assoc)
    ultimately show ?thesis by simp
  next
    case False
    then have "metadataLoop (line # lines) d t =
        metadataLoop lines (orElse d (dateOfLine line)) (orElse t (timeOfLine line))"
      using metadataLoop_step [OF Cons.prems, of line lines] by (auto simp del: metadataLoop.simps)
    then show ?thesis
      using Cons.IH [OF nd nt] by (simp add: assoc)
  qed
qed

lemma detectMatchMetadata_firstSome:
  "detectMatchMetadata lines =
     (firstSome (map dateOfLine lines), firstSome (map timeOfLine lines))"
proof (cases "lines = []")
  case True
  then show ?thesis by (simp add: detectMatchMetadata_def)
next
  case False
  then show ?thesis
    using metadataLoop_firstSome [of None None lines]
    by (simp add: detectMatchMetadata_def orElse_def)
qed


lemma splitAt_no_sep:
  "\<forall>c\<in>set xs. \<not> sep c \<Longrightarrow> splitAt sep cur xs = [cur @ xs]"
  by (induction xs arbitrary: cur) simp_all

lemma splitAt_sep:
  "\<forall>c\<in>set xs. \<not> sep c \<Longrightarrow> sep c \<Longrightarrow>
   splitAt sep cur (xs @ c # rest) = (cur @ xs) # splitAt sep [] rest"
  by (induction xs arbitrary: cur) simp_all

lemma trim_id: "\<forall>c\<in>set s. \<not> isSpace c \<Longrightarrow> trim s = s"
proof (cases s rule: rev_cases)
  case Nil
  then show ?thesis by (simp add: trim_def trimStart_def trimEnd_def)
next
  case (snoc xs x)
  assume a: "\<forall>c\<in>set s. \<not> isSpace c"
  then have "dropWhile isSpace s = s"
    by (cases s) simp_all
  moreover have "dropWhile isSpace (rev s) = rev s"
    using a snoc by simp
  ultimately show ?thesis
    by (simp add: trim_def trimStart_def trimEnd_def)
qed

lemma digit_chars:
  "\<forall>c\<in>set ''0123456789''. \<not> isSpace c \<and> \<not> dateSeparator c \<and> c \<noteq> CHR '':'' \<and>
      c \<noteq> CHR ''h'' \<and> c \<noteq> CHR ''H'' \<and> c \<noteq> CHR ''m'' \<and> toLowerChar c = c"
  by code_simp

lemma meridiem_chars:
  "\<forall>c\<in>set '':amp''. \<not> isSpace c \<and> toLowerChar c = c"
  by code_simp

lemma digit_facts:
  assumes "isDigit c"
  shows "\<not> isSpace c" "\<not> dateSeparator c" "c \<noteq> CHR '':''" "c \<noteq> CHR ''h''" "c \<noteq> CHR ''H''"
    "c \<noteq> CHR ''m''" "toLowerChar c = c"
  using assms digit_chars unfolding isDigit_def by blast+

lemma digits_trim:
  "list_all isDigit s \<Longrightarrow> trim s = s"
  by (rule trim_id) (auto simp: list_all_iff digit_facts)

lemma Number_digits:
  "s \<noteq> [] \<Longrightarrow> list_all isDigit s \<Longrightarrow> Number s = Some (digitsValue s)"
  by (simp add: Number_def)

lemma formatDateForInput_digits:
  assumes ds: "ds \<noteq> []" "list_all isDigit ds"
    and ms: "ms \<noteq> []" "list_all isDigit ms"
    and ys: "ys \<noteq> []" "list_all isDigit ys"
    and seps: "dateSeparator s1" "dateSeparator s2"
  shows "formatDateForInput (ds @ s1 # ms @ s2 # ys) =
     formatDateNumbers (digitsValue ds) (digitsValue ms) (digitsValue ys)"
proof -
  have nosep: "\<forall>c\<in>set xs. \<not> dateSeparator c" if "list_all isDigit xs" for xs
    using that by (auto simp: list_all_iff digit_facts)
  have "splitOn dateSeparator (ds @ s1 # ms @ s2 # ys) = [ds, ms, ys]"
    unfolding splitOn_def
    using nosep [OF ds(2)] nosep [OF ms(2)] nosep [OF ys(2)] seps
    by (simp add: splitAt_sep splitAt_no_sep)
  then have parts: "filter (\<lambda>part. part \<noteq> [])
      (map trim (splitOn dateSeparator (ds @ s1 # ms @ s2 # ys))) = [ds, ms, ys]"
    using ds ms ys by (simp add: digits_trim)
  show ?thesis
    unfolding formatDateForInput_def parts Let_def
    using ds ms ys by (simp add: Number_digits)
qed

lemma map_id_on: "\<forall>c\<in>set xs. f c = c \<Longrightarrow> map f xs = xs"
  by (induction xs) simp_all

lemma meridiem_string:
  assumes hs: "hs \<noteq> []" "list_all isDigit hs" and ms: "ms \<noteq> []" "list_all isDigit ms"
    and mer: "mer = [] \<or> mer = ''am'' \<or> mer = ''pm''"
  shows "trim (hs @ '':'' @ ms @ mer) = hs @ '':'' @ ms @ mer"
    and "toLowerCase (hs @ '':'' @ ms @ mer) = hs @ '':'' @ ms @ mer"
    and "meridiemOf (hs @ '':'' @ ms @ mer) = (if mer = [] then None else Some mer)"
    and "timeSegments (hs @ '':'' @ ms @ mer) = [hs, ms]"
proof -
  let ?raw = "hs @ '':'' @ ms @ mer"
  have dig: "\<not> isSpace c \<and> c \<noteq> CHR '':'' \<and> c \<noteq> CHR ''h'' \<and> c \<noteq> CHR ''H'' \<and> toLowerChar c = c"
    if "c \<in> set hs \<union> set ms" for c
  proof -
    from that hs(2) ms(2) have "isDigit c" by (auto simp: list_all_iff)
    from digit_facts [OF this] show ?thesis by blast
  qed
  have merc: "\<not> isSpace c \<and> toLowerChar c = c" if "c \<in> set mer" for c
  proof -
    from that mer have "c \<in> set '':amp''" by auto
    with meridiem_chars show ?thesis by blast
  qed
  have colon: "\<not> isSpace (CHR '':'')" "toLowerChar (CHR '':'') = CHR '':''"
    using meridiem_chars by simp_all
  show t: "trim ?raw = ?raw"
    by (rule trim_id) (use dig merc colon in auto)
  show l: "toLowerCase ?raw = ?raw"
    unfolding toLowerCase_def by (rule map_id_on) (use dig merc colon in auto)
  obtain m ms' where msl: "ms = ms' @ [m]" "isDigit m"
    using ms by (cases ms rule: rev_cases) auto
  have mm: "m \<noteq> CHR ''m''" using msl(2) by (simp add: digit_facts)
  show me: "meridiemOf ?raw = (if mer = [] then None else Some mer)"
    using mer mm by (auto simp: meridiemOf_def endsWith_def msl(1))
  have cut: "(if meridiemOf ?raw = None then ?raw else take (length ?raw - 2) ?raw) = hs @ '':'' @ ms"
  proof (cases "mer = []")
    case True
    then show ?thesis unfolding me by simp
  next
    case False
    then have "length mer = 2" using mer by auto
    then have "take (length ?raw - 2) ?raw = hs @ '':'' @ ms"
      by (simp add: take_append)
    then show ?thesis unfolding me using False by simp
  qed
  have keep: "map (\<lambda>c. if c = CHR ''h'' \<or> c = CHR ''H'' then CHR '':'' else c) (hs @ '':'' @ ms)
      = hs @ '':'' @ ms"
    by (rule map_id_on) (use dig in auto)
  have nosp: "filter (\<lambda>c. \<not> isSpace c) (hs @ '':'' @ ms) = hs @ '':'' @ ms"
    using dig colon by (auto simp: filter_id_conv)
  have tr: "trim (hs @ '':'' @ ms) = hs @ '':'' @ ms"
    by (rule trim_id) (use dig colon in auto)
  have sp: "splitOn (\<lambda>c. c = CHR '':'') (hs @ '':'' @ ms) = [hs, ms]"
    unfolding splitOn_def using dig by (simp add: splitAt_sep splitAt_no_sep)
  show "timeSegments ?raw = [hs, ms]"
    unfolding timeSegments_def cut Let_def keep nosp tr sp using hs(1) ms(1) by simp
qed

lemma formatTimeForInput_digits:
  assumes hs: "hs \<noteq> []" "list_all isDigit hs" and ms: "ms \<noteq> []" "list_all isDigit ms"
    and mer: "mer = [] \<or> mer = ''am'' \<or> mer = ''pm''"
  shows "formatTimeForInput (hs @ '':'' @ ms @ mer) =
     Some (timeString (if mer = [] then None else Some mer) (digitsValue hs) (digitsValue ms))"
proof -
  have ne: "hs @ '':'' @ ms @ mer \<noteq> []" using hs by simp
  show ?thesis
    unfolding formatTimeForInput_def meridiem_string [OF assms] Let_def
    using ne hs ms by (simp add: Number_digits)
qed

text \<open>
  C8, as the claim states it, fails. The first date matched is 15/03/00; its year 00 is
  below 70, yet it gives no date (a year of 0 is refused), and the scan goes on to the
  date of the next line.
\<close>

theorem C8_first_date_counterexample:
  "map_option m_group (rxExec DATE_REGEX (getLineText (lineOfWords [''Date: 15/03/00''])))
     = Some (Some ''15/03/00'') \<and>
   formatDateForInput ''15/03/00'' = None \<and>
   detectMatchMetadata [lineOfWords [''Date: 15/03/00''], lineOfWords [''16/04/24'']]
     = (Some ''2024-04-16'', None)"
  by code_simp

text \<open>
  C8 (amended): \<open>detectMatchMetadata\<close> returns, for the date and for the time apart, what
  the first line gives whose first match formats to a value. A date of three numbers
  gives no value when one of them is 0; a year below 100 goes to the 1900s from 70 on and
  to the 2000s below; day and month are swapped when the month is above 12 and the day is
  not; after that a day above 31 or a month above 12 gives no value. A time \<open>h:mm\<close> keeps
  its hour (modulo 24), with \<open>pm\<close> an hour below 12 gains 12, with \<open>am\<close> the hour 12
  becomes 0.
\<close>

theorem C8_detectMatchMetadata:
  "detectMatchMetadata lines =
     (firstSome (map dateOfLine lines), firstSome (map timeOfLine lines)) \<and>
   (ds \<noteq> [] \<and> list_all isDigit ds \<and> ms \<noteq> [] \<and> list_all isDigit ms \<and>
    ys \<noteq> [] \<and> list_all isDigit ys \<and> dateSeparator s1 \<and> dateSeparator s2 \<longrightarrow>
      formatDateForInput (ds @ s1 # ms @ s2 # ys) =
        (let day = digitsValue ds; month = digitsValue ms; year = digitsValue ys;
             year' = (if year < 100 then (if 70 \<le> year then 1900 + year else 2000 + year)
                      else year) in
         if day = 0 \<or> month = 0 \<or> year = 0 then None
         else if 12 < month \<and> day \<le> 12 then
           (if 31 < month then None
            else Some (String_nat year' @ ''-'' @ pad day @ ''-'' @ pad month))
         else if 31 < day \<or> 12 < month then None
         else Some (String_nat year' @ ''-'' @ pad month @ ''-'' @ pad day))) \<and>
   (hs \<noteq> [] \<and> list_all isDigit hs \<and> mins \<noteq> [] \<and> list_all isDigit mins \<longrightarrow>
      formatTimeForInput (hs @ '':'' @ mins) =
        Some (pad (digitsValue hs mod 24) @ '':'' @ pad (digitsValue mins)) \<and>
      formatTimeForInput (hs @ '':'' @ mins @ ''pm'') =
        Some (pad ((if digitsValue hs < 12 then digitsValue hs + 12 else digitsValue hs) mod 24)
              @ '':'' @ pad (digitsValue mins)) \<and>
      formatTimeForInput (hs @ '':'' @ mins @ ''am'') =
        Some (pad ((if digitsValue hs = 12 then 0 else digitsValue hs) mod 24)
              @ '':'' @ pad (digitsValue mins)))"
proof -
  have date: "formatDateForInput (ds @ s1 # ms @ s2 # ys) =
        (let day = digitsValue ds; month = digitsValue ms; year = digitsValue ys;
             year' = (if year < 100 then (if 70 \<le> year then 1900 + year else 2000 + year)
                      else year) in
         if day = 0 \<or> month = 0 \<or> year = 0 then None
         else if 12 < month \<and> day \<le> 12 then
           (if 31 < month then None
            else Some (String_nat year' @ ''-'' @ pad day @ ''-'' @ pad month))
         else if 31 < day \<or> 12 < month then None
         else Some (String_nat year' @ ''-'' @ pad month @ ''-'' @ pad day))"
    if "ds \<noteq> []" "list_all isDigit ds" "ms \<noteq> []" "list_all isDigit ms"
      "ys \<noteq> []" "list_all isDigit ys" "dateSeparator s1" "dateSeparator s2"
    unfolding formatDateForInput_digits [OF that]
    by (simp add: formatDateNumbers_def dateString_def Let_def add.commute)
  have time: "formatTimeForInput (hs @ '':'' @ mins) =
        Some (pad (digitsValue hs mod 24) @ '':'' @ pad (digitsValue mins)) \<and>
      formatTimeForInput (hs @ '':'' @ mins @ ''pm'') =
        Some (pad ((if digitsValue hs < 12 then digitsValue hs + 12 else digitsValue hs) mod 24)
              @ '':'' @ pad (digitsValue mins)) \<and>
      formatTimeForInput (hs @ '':'' @ mins @ ''am'') =
        Some (pad ((if digitsValue hs = 12 then 0 else digitsValue hs) mod 24)
              @ '':'' @ pad (digitsValue mins))"
    if h: "hs \<noteq> []" "list_all isDigit hs" "mins \<noteq> []" "list_all isDigit mins"
    using formatTimeForInput_digits [OF h, of "[]"] formatTimeForInput_digits [OF h, of "''pm''"]
      formatTimeForInput_digits [OF h, of "''am''"]
    by (simp add: timeString_def Let_def)
  show ?thesis
    using detectMatchMetadata_firstSome [of lines] date time by blast
qed

theorem C8_detectMatchMetadata_witness:
  "detectMatchMetadata [lineOfWords [''Date: 15/03/24 ... Time: 7:30pm'']]
     = (Some ''2024-03-15'', Some ''19:30'') \<and>
   formatDateForInput ''15/03/24'' = Some ''2024-03-15'' \<and>
   formatTimeForInput ''7:30pm'' = Some ''19:30''"
proof -
  let ?lines = "[lineOfWords [''Date: 15/03/24 ... Time: 7:30pm'']]"
  have d: "firstSome (map dateOfLine ?lines) = Some ''2024-03-15''"
    by code_simp
  have t: "firstSome (map timeOfLine ?lines) = Some ''19:30''"
    by code_simp
  have one: "detectMatchMetadata ?lines = (Some ''2024-03-15'', Some ''19:30'')"
    using C8_detectMatchMetadata [of ?lines] d t by simp
  have digits: "list_all isDigit ''15''" "list_all isDigit ''03''" "list_all isDigit ''24''"
    "list_all isDigit ''7''" "list_all isDigit ''30''"
    by (simp_all add: isDigit_def)
  have seps: "dateSeparator (CHR ''/'')"
    by (simp add: dateSeparator_def)
  have vals: "digitsValue ''15'' = 15" "digitsValue ''03'' = 3" "digitsValue ''24'' = 24"
    "digitsValue ''7'' = 7" "digitsValue ''30'' = 30"
    by (simp_all add: digitsValue_def digitValue_def)
  have strs: "String_nat 2024 = ''2024''" "pad 3 = ''03''" "pad 15 = ''15''" "pad 19 = ''19''"
    "pad 30 = ''30''"
    by code_simp+
  have two: "formatDateForInput ''15/03/24'' = Some ''2024-03-15''"
    using C8_detectMatchMetadata [of _ "''15''" "''03''" "''24''" "CHR ''/''" "CHR ''/''"]
      digits seps
    by (simp add: vals strs)
  have three: "formatTimeForInput ''7:30pm'' = Some ''19:30''"
    using C8_detectMatchMetadata [of _ _ _ _ _ _ "''7''" "''30''"] digits
    by (simp add: vals strs)
  show ?thesis
    using one two three by blast
qed

section \<open>Anchor inference failure (C9)\<close>

lemma positionalColumns_cells:
  "positionalColumns tokens labels =
     map (\<lambda>i. if i < length tokens \<and> normalizeTokenText (t_text (tokens ! i)) \<noteq> []
               then normalizeTokenText (t_text (tokens ! i)) else ''.'')
       [0..<length labels]"
  by (simp add: positionalColumns_def positionalCell_def Let_def EMPTY_VALUE_PLACEHOLDER_def)

lemma mapTokensToColumns_fallback:
  assumes "anchors = None \<or> (\<exists>as. anchors = Some as \<and> length as \<noteq> length (effectiveLabels labels))"
  shows "mapTokensToColumns tokens anchors labels =
     map (\<lambda>i. if i < length tokens \<and> normalizeTokenText (t_text (tokens ! i)) \<noteq> []
               then normalizeTokenText (t_text (tokens ! i)) else ''.'')
       [0..<length (effectiveLabels labels)]"
  using assms
  by (auto simp: mapTokensToColumns_def Let_def positionalColumns_cells split: option.splits)

lemma candidateTokens_Nil:
  "candidateTokens players currentSetCount = [] \<longleftrightarrow>
     (\<forall>p\<in>set players.
        length (filter (\<lambda>token. trim (t_text token) \<noteq> []) (pp_statTokens (fp_player p)))
          < length (buildTableColumnLabels (Some currentSetCount)))"
proof -
  have "sort_key f xs = [] \<longleftrightarrow> xs = []" for f :: "StatToken list \<Rightarrow> int" and xs
    by (metis length_sort length_0_conv)
  then show ?thesis
    unfolding candidateTokens_def by (simp add: filter_empty_conv not_le)
qed

lemma inferColumnAnchors_fallback:
  assumes "inferAnchorsFromHeader lines = None"
  shows "inferColumnAnchors players lines currentSetCount =
     (case candidateTokens players currentSetCount of
        [] \<Rightarrow> (None, currentSetCount)
      | c # _ \<Rightarrow> (Some (map (\<lambda>index. anchorOf (c ! index))
            [0..<length (buildTableColumnLabels (Some currentSetCount))]), currentSetCount))"
proof (cases "players = []")
  case True
  then show ?thesis
    using assms by (simp add: inferColumnAnchors_def candidateTokens_def)
next
  case False
  then show ?thesis
    using assms by (simp add: inferColumnAnchors_def candidateTokens_def Let_def)
qed

lemma inferColumnAnchors_None:
  "inferColumnAnchors players lines currentSetCount = (None, currentSetCount) \<longleftrightarrow>
     inferAnchorsFromHeader lines = None \<and>
     (\<forall>p\<in>set players.
        length (filter (\<lambda>token. trim (t_text token) \<noteq> []) (pp_statTokens (fp_player p)))
          < length (buildTableColumnLabels (Some currentSetCount)))"
proof (cases "inferAnchorsFromHeader lines")
  case (Some a)
  obtain anchors setCount where "a = (anchors, setCount)" by (cases a)
  then show ?thesis using Some by (simp add: inferColumnAnchors_def)
next
  case None
  show ?thesis
  proof (cases "candidateTokens players currentSetCount")
    case Nil
    then show ?thesis
      using None candidateTokens_Nil [of players currentSetCount]
      by (simp add: inferColumnAnchors_fallback)
  next
    case (Cons c cs)
    then show ?thesis
      using None candidateTokens_Nil [of players currentSetCount]
      by (simp add: inferColumnAnchors_fallback)
  qed
qed

text \<open>
  C9: \<open>inferColumnAnchors\<close> yields no anchors exactly when the header strategy yields
  nothing and no player has as many non-blank stat tokens as there are labels. Without
  anchors, or with anchors that are not as many as the labels, \<open>mapTokensToColumns\<close> is
  positional: the cell at \<open>i\<close> is the text of the \<open>i\<close>-th token with its parentheses
  stripped, and \<open>"."\<close> where that is empty or there is no such token. Both functions are
  total here: no branch of theirs raises.
\<close>

theorem C9_positional_fallback:
  "(inferColumnAnchors players lines currentSetCount = (None, currentSetCount) \<longleftrightarrow>
      inferAnchorsFromHeader lines = None \<and>
      (\<forall>p\<in>set players.
         length (filter (\<lambda>token. trim (t_text token) \<noteq> []) (pp_statTokens (fp_player p)))
           < length (buildTableColumnLabels (Some currentSetCount)))) \<and>
   (anchors = None \<or> (\<exists>as. anchors = Some as \<and> length as \<noteq> length (effectiveLabels labels))
      \<longrightarrow> mapTokensToColumns tokens anchors labels =
         map (\<lambda>i. if i < length tokens \<and> normalizeTokenText (t_text (tokens ! i)) \<noteq> []
                   then normalizeTokenText (t_text (tokens ! i)) else ''.'')
           [0..<length (effectiveLabels labels)])"
  using inferColumnAnchors_None [of players lines currentSetCount]
    mapTokensToColumns_fallback [of anchors labels tokens]
  by blast

theorem C9_positional_fallback_witness:
  "inferColumnAnchors (r_players (extractPlayers sampleHead)) sampleHead 4 = (None, 4) \<and>
   mapTokensToColumns
     [\<lparr>t_text = ''(12)'', t_x = Fin 60, t_width = Fin 10, t_height = Fin 8\<rparr>,
      \<lparr>t_text = ''88%'', t_x = Fin 80, t_width = Fin 10, t_height = Fin 8\<rparr>]
     None [''1'', ''Vote'', ''Points Tot''] = [''12'', ''88%'', ''.'']"
proof -
  let ?tokens = "[\<lparr>t_text = ''(12)'', t_x = Fin 60, t_width = Fin 10, t_height = Fin 8\<rparr>,
      \<lparr>t_text = ''88%'', t_x = Fin 80, t_width = Fin 10, t_height = Fin 8\<rparr>]"
  have header: "inferAnchorsFromHeader sampleHead = None"
    by code_simp
  have short: "\<forall>p\<in>set (r_players (extractPlayers sampleHead)).
         length (filter (\<lambda>token. trim (t_text token) \<noteq> []) (pp_statTokens (fp_player p)))
           < length (buildTableColumnLabels (Some 4))"
    by code_simp
  have labels: "effectiveLabels [''1'', ''Vote'', ''Points Tot''] = [''1'', ''Vote'', ''Points Tot'']"
    by (simp add: effectiveLabels_def)
  have cells: "map (\<lambda>i. if i < length ?tokens \<and> normalizeTokenText (t_text (?tokens ! i)) \<noteq> []
                   then normalizeTokenText (t_text (?tokens ! i)) else ''.'')
           [0..<length [''1'', ''Vote'', ''Points Tot'']] = [''12'', ''88%'', ''.'']"
    by code_simp
  have one: "inferColumnAnchors (r_players (extractPlayers sampleHead)) sampleHead 4 = (None, 4)"
    using C9_positional_fallback [of "r_players (extractPlayers sampleHead)" sampleHead 4]
      header short
    by blast
  have two: "mapTokensToColumns ?tokens None [''1'', ''Vote'', ''Points Tot''] = [''12'', ''88%'', ''.'']"
    using C9_positional_fallback [of _ _ _ None "[''1'', ''Vote'', ''Points Tot'']" ?tokens]
    unfolding labels cells by blast
  show ?thesis
    using one two by blast
qed

end
